theory Spec2Isabelle
  imports Complex_Main
begin

section \<open>Errors, arrays and labelled vectors\<close>

text \<open>
  The module \<open>pypfopt/expected_returns.py\<close> computes on numpy arrays and pandas tables.
  Numbers are modelled as exact reals, which the doubles of the code follow up to
  rounding; the rounding itself is modelled apart, in the section on double precision,
  for the one function whose returned digits a statement depends on. The values \<open>inf\<close>
  and \<open>nan\<close> that numpy produces on a division by zero are outside the model (HOL's
  \<open>x / 0\<close> is \<open>0\<close>); statements about returned numbers therefore assume the divisors
  nonzero. Exceptions are values of type \<open>error\<close>, carried on the left of a sum.
\<close>

datatype error = LinAlgError | ValueError | IndexError

text \<open>
  A two-dimensional \<open>ndarray\<close>: its rows, and the number of columns (kept apart from the
  rows, since an array with no rows still has a column count).
\<close>

record ndarray =
  ncols :: nat
  rows :: "real list list"

definition nrows :: "ndarray \<Rightarrow> nat" where
  "nrows M = length (rows M)"

definition wf_array :: "ndarray \<Rightarrow> bool" where
  "wf_array M = list_all (\<lambda>r. length r = ncols M) (rows M)"

text \<open>A pandas \<open>Series\<close>: the index labels and the values, position by position.\<close>

record ('k, 'v) series =
  index :: "'k list"
  vals :: "'v list"

definition pd_Series :: "'v list \<Rightarrow> 'k list \<Rightarrow> error + ('k, 'v) series" where
  "pd_Series x idx =
     (if length x = length idx then Inr \<lparr>index = idx, vals = x\<rparr> else Inl ValueError)"

subsection \<open>Array operations of numpy\<close>

definition dot :: "real list \<Rightarrow> real list \<Rightarrow> real" where
  "dot xs ys = sum_list (map2 (*) xs ys)"

definition col :: "ndarray \<Rightarrow> nat \<Rightarrow> real list" where
  "col M j = map (\<lambda>r. r ! j) (rows M)"

definition transpose_T :: "ndarray \<Rightarrow> ndarray" where
  "transpose_T M = \<lparr>ncols = nrows M, rows = map (col M) [0..<ncols M]\<rparr>"

definition scalar_mul :: "real \<Rightarrow> ndarray \<Rightarrow> ndarray" where
  "scalar_mul c M = \<lparr>ncols = ncols M, rows = map (map ((*) c)) (rows M)\<rparr>"

definition mat_mult :: "ndarray \<Rightarrow> ndarray \<Rightarrow> ndarray" where
  "mat_mult A B =
     \<lparr>ncols = ncols B, rows = map (\<lambda>r. map (\<lambda>j. dot r (col B j)) [0..<ncols B]) (rows A)\<rparr>"

definition matmul :: "ndarray \<Rightarrow> ndarray \<Rightarrow> error + ndarray" where
  "matmul A B = (if ncols A = nrows B then Inr (mat_mult A B) else Inl ValueError)"

definition mat_vec :: "ndarray \<Rightarrow> real list \<Rightarrow> real list" where
  "mat_vec M x = map (\<lambda>r. dot r x) (rows M)"

definition dot_vec :: "ndarray \<Rightarrow> real list \<Rightarrow> error + real list" where
  "dot_vec M x = (if ncols M = length x then Inr (mat_vec M x) else Inl ValueError)"

definition eye :: "nat \<Rightarrow> ndarray" where
  "eye n = \<lparr>ncols = n,
            rows = map (\<lambda>i. map (\<lambda>j. if i = j then 1 else 0) [0..<n]) [0..<n]\<rparr>"

text \<open>\<open>np.diag\<close> of a two-dimensional array reads its main diagonal.\<close>

definition diag_vec :: "ndarray \<Rightarrow> real list" where
  "diag_vec M = map (\<lambda>i. rows M ! i ! i) [0..<min (nrows M) (ncols M)]"

text \<open>\<open>np.diag\<close> of a one-dimensional array builds the diagonal matrix.\<close>

definition diag_mat :: "real list \<Rightarrow> ndarray" where
  "diag_mat v = \<lparr>ncols = length v,
                 rows = map (\<lambda>i. map (\<lambda>j. if i = j then v ! i else 0) [0..<length v])
                          [0..<length v]\<rparr>"

text \<open>
  Elementwise addition broadcasts: along an axis the two extents are equal, or one of
  them is 1 and that operand is repeated; anything else raises.
\<close>

definition broadcast :: "nat \<Rightarrow> 'a list \<Rightarrow> 'a list" where
  "broadcast n xs = (if length xs = 1 then replicate n (hd xs) else xs)"

definition bshape :: "nat \<Rightarrow> nat \<Rightarrow> nat option" where
  "bshape m n = (if m = n then Some m else if m = 1 then Some n
                 else if n = 1 then Some m else None)"

definition vec_add :: "real list \<Rightarrow> real list \<Rightarrow> real list" where
  "vec_add u v = map2 (+) u v"

definition vadd :: "real list \<Rightarrow> real list \<Rightarrow> error + real list" where
  "vadd u v =
     (case bshape (length u) (length v) of
        None \<Rightarrow> Inl ValueError
      | Some n \<Rightarrow> Inr (vec_add (broadcast n u) (broadcast n v)))"

definition mat_add :: "ndarray \<Rightarrow> ndarray \<Rightarrow> ndarray" where
  "mat_add A B = \<lparr>ncols = ncols A, rows = map2 vec_add (rows A) (rows B)\<rparr>"

definition bcast_array :: "nat \<Rightarrow> nat \<Rightarrow> ndarray \<Rightarrow> ndarray" where
  "bcast_array r c M = \<lparr>ncols = c, rows = broadcast r (map (broadcast c) (rows M))\<rparr>"

definition madd :: "ndarray \<Rightarrow> ndarray \<Rightarrow> error + ndarray" where
  "madd A B =
     (case (bshape (nrows A) (nrows B), bshape (ncols A) (ncols B)) of
        (Some r, Some c) \<Rightarrow> Inr (mat_add (bcast_array r c A) (bcast_array r c B))
      | _ \<Rightarrow> Inl ValueError)"

subsection \<open>Linear solves: \<open>np.linalg.solve\<close> and \<open>np.linalg.inv\<close>\<close>

text \<open>
  LAPACK's \<open>gesv\<close> eliminates with row pivoting and reports a singular matrix when no
  nonzero pivot is left; numpy turns that report into \<open>LinAlgError\<close>. In exact arithmetic
  the choice among nonzero pivots does not change the solution, so the model takes the
  first one. (In doubles a pivot that is zero in exact arithmetic may come out as a tiny
  nonzero number, and the elimination then goes on; here a matrix is reported singular
  exactly when it has no inverse.) An equation is a row of coefficients with its
  right-hand side.
\<close>

type_synonym equation = "real list \<times> real"

definition lead :: "equation \<Rightarrow> real" where
  "lead e = (case fst e of [] \<Rightarrow> 0 | a # _ \<Rightarrow> a)"

fun pivot_split :: "equation list \<Rightarrow> (equation \<times> equation list) option" where
  "pivot_split [] = None"
| "pivot_split (e # es) =
     (if lead e \<noteq> 0 then Some (e, es)
      else (case pivot_split es of
              None \<Rightarrow> None
            | Some (p, rest) \<Rightarrow> Some (p, e # rest)))"

definition eliminate :: "equation \<Rightarrow> equation \<Rightarrow> equation" where
  "eliminate p e =
     (let k = lead e / lead p
      in (map2 (\<lambda>y x. y - k * x) (tl (fst e)) (tl (fst p)), snd e - k * snd p))"

primrec gauss :: "nat \<Rightarrow> equation list \<Rightarrow> real list option" where
  "gauss 0 es = Some []"
| "gauss (Suc n) es =
     (case pivot_split es of
        None \<Rightarrow> None
      | Some (p, rest) \<Rightarrow>
          (case gauss n (map (eliminate p) rest) of
             None \<Rightarrow> None
           | Some ys \<Rightarrow> Some ((snd p - dot (tl (fst p)) ys) / lead p # ys)))"

definition linalg_solve :: "ndarray \<Rightarrow> real list \<Rightarrow> error + real list" where
  "linalg_solve A b =
     (if nrows A \<noteq> ncols A then Inl LinAlgError
      else if length b \<noteq> nrows A then Inl ValueError
      else (case gauss (nrows A) (zip (rows A) b) of
              None \<Rightarrow> Inl LinAlgError
            | Some x \<Rightarrow> Inr x))"

definition unit_vec :: "nat \<Rightarrow> nat \<Rightarrow> real list" where
  "unit_vec n j = map (\<lambda>i. if i = j then 1 else 0) [0..<n]"

text \<open>The inverse is the solution of \<open>M X = I\<close>, found column by column.\<close>

definition linalg_inv :: "ndarray \<Rightarrow> error + ndarray" where
  "linalg_inv M =
     (if nrows M \<noteq> ncols M then Inl LinAlgError
      else (let n = nrows M
            in case those (map (\<lambda>j. gauss n (zip (rows M) (unit_vec n j))) [0..<n]) of
                 None \<Rightarrow> Inl LinAlgError
               | Some cs \<Rightarrow> Inr (transpose_T \<lparr>ncols = n, rows = cs\<rparr>)))"

section \<open>The Black-Litterman posterior\<close>

text \<open>
  \<open>black_litterman_return(Pi, Sigma, Q, Omega=None, P=None, tau=0.05)\<close>. The prior \<open>Pi\<close> is
  a series, whose index the result carries; of \<open>Q\<close> only the values are read. \<open>Sigma\<close>,
  \<open>P\<close> and \<open>Omega\<close> are plain arrays: the alignment of labelled operands by pandas is not
  modelled. The arguments \<open>Pi\<close> and \<open>Sigma\<close> of the source are \<open>Pi0\<close> and \<open>Sigma0\<close> here
  (both names are constants of HOL).
\<close>

text \<open>Line 121: \<open>np.diag(np.diag(tau * P @ Sigma @ P.T))\<close>, read from the left.\<close>

definition default_Omega :: "real \<Rightarrow> ndarray \<Rightarrow> ndarray \<Rightarrow> error + ndarray" where
  "default_Omega tau P Sigma0 =
     (case matmul (scalar_mul tau P) Sigma0 of
        Inl e \<Rightarrow> Inl e
      | Inr M \<Rightarrow>
          (case matmul M (transpose_T P) of
             Inl e \<Rightarrow> Inl e
           | Inr M' \<Rightarrow> Inr (diag_mat (diag_vec M'))))"

text \<open>
  Line 123: \<open>np.diag(1.0 / np.diag(Omega))\<close>. Where the diagonal of \<open>Omega\<close> has a zero,
  numpy has \<open>inf\<close> (and warns); the model has HOL's \<open>1 / 0 = 0\<close> there, so the values it
  returns mean something for a nonzero diagonal only.
\<close>

definition Omega_inv :: "ndarray \<Rightarrow> ndarray" where
  "Omega_inv Omega = diag_mat (map (\<lambda>d. 1 / d) (diag_vec Omega))"

text \<open>Lines 124 to 130, with \<open>P\<close> and \<open>Omega\<close> present, statement by statement.\<close>

definition posterior ::
  "('k, real) series \<Rightarrow> ndarray \<Rightarrow> ('q, real) series \<Rightarrow> ndarray \<Rightarrow> ndarray \<Rightarrow> real
     \<Rightarrow> error + ('k, real) series" where
  "posterior Pi0 Sigma0 Q Omega P tau =
     (case matmul (transpose_T P) (Omega_inv Omega) of Inl e \<Rightarrow> Inl e | Inr P_Omega_inv \<Rightarrow>
      case linalg_inv (scalar_mul tau Sigma0) of Inl e \<Rightarrow> Inl e | Inr tau_Sigma_inv \<Rightarrow>
      case matmul P_Omega_inv P of Inl e \<Rightarrow> Inl e | Inr PtOP \<Rightarrow>
      case madd tau_Sigma_inv PtOP of Inl e \<Rightarrow> Inl e | Inr A \<Rightarrow>
      case dot_vec tau_Sigma_inv (vals Pi0) of Inl e \<Rightarrow> Inl e | Inr b1 \<Rightarrow>
      case dot_vec P_Omega_inv (vals Q) of Inl e \<Rightarrow> Inl e | Inr b2 \<Rightarrow>
      case vadd b1 b2 of Inl e \<Rightarrow> Inl e | Inr b \<Rightarrow>
      case linalg_solve A b of Inl e \<Rightarrow> Inl e | Inr x \<Rightarrow>
      pd_Series x (index Pi0))"

text \<open>Lines 118 to 121 fill in the defaults; then the rest runs.\<close>

definition black_litterman_return ::
  "('k, real) series \<Rightarrow> ndarray \<Rightarrow> ('q, real) series \<Rightarrow> ndarray option \<Rightarrow> ndarray option
     \<Rightarrow> real \<Rightarrow> error + ('k, real) series" where
  "black_litterman_return Pi0 Sigma0 Q Omega P tau =
     (let P' = (case P of None \<Rightarrow> eye (nrows Sigma0) | Some P0 \<Rightarrow> P0) in
      case (case Omega of None \<Rightarrow> default_Omega tau P' Sigma0 | Some Om \<Rightarrow> Inr Om) of
        Inl e \<Rightarrow> Inl e
      | Inr Omega' \<Rightarrow> posterior Pi0 Sigma0 Q Omega' P' tau)"

section \<open>Price tables and return tables\<close>

text \<open>
  A pandas \<open>DataFrame\<close>: the column labels and the rows, each row with its index label
  and its cells in column order. A price table holds reals; a return table holds cells
  that may be missing (\<open>None\<close> is pandas' \<open>NaN\<close>). Price tables with missing prices are not
  modelled (how \<open>pct_change\<close> fills them differs between pandas versions).
\<close>

type_synonym cell = "real option"

datatype label = Str string | Pos nat

record 'v dataframe =
  columns :: "label list"
  df_rows :: "(label \<times> 'v list) list"

definition wf_frame :: "'v dataframe \<Rightarrow> bool" where
  "wf_frame df = list_all (\<lambda>r. length (snd r) = length (columns df)) (df_rows df)"

definition column :: "'v dataframe \<Rightarrow> nat \<Rightarrow> 'v list" where
  "column df j = map (\<lambda>r. snd r ! j) (df_rows df)"

subsection \<open>\<open>returns_from_prices\<close>\<close>

text \<open>
  \<open>pct_change\<close> divides every row by the row before it and subtracts one; the first row
  has no row before it and is all \<open>NaN\<close>. A quotient by a zero price is \<open>nan\<close> or \<open>inf\<close> in
  numpy; the model has \<open>None\<close> there, and the statements on values assume nonzero prices.
\<close>

definition ratio :: "real \<Rightarrow> real \<Rightarrow> cell" where
  "ratio p q = (if q = 0 then None else Some (p / q - 1))"

fun changes :: "real list \<Rightarrow> (label \<times> real list) list \<Rightarrow> (label \<times> cell list) list" where
  "changes prev [] = []"
| "changes prev ((t, r) # rs) = (t, map2 ratio r prev) # changes r rs"

definition pct_change :: "real dataframe \<Rightarrow> cell dataframe" where
  "pct_change df =
     \<lparr>columns = columns df,
      df_rows = (case df_rows df of
                   [] \<Rightarrow> []
                 | (t, r) # rs \<Rightarrow> (t, map (\<lambda>_. None) r) # changes r rs)\<rparr>"

text \<open>\<open>dropna(how="all")\<close> keeps the rows that have a cell which is not \<open>NaN\<close>.\<close>

definition dropna_all :: "cell dataframe \<Rightarrow> cell dataframe" where
  "dropna_all df =
     \<lparr>columns = columns df,
      df_rows = filter (\<lambda>r. list_ex (\<lambda>c. c \<noteq> None) (snd r)) (df_rows df)\<rparr>"

definition returns_from_prices :: "real dataframe \<Rightarrow> cell dataframe" where
  "returns_from_prices prices = dropna_all (pct_change prices)"

subsection \<open>\<open>prices_from_returns\<close>\<close>

text \<open>Line 49, \<open>1 + returns\<close>: cell by cell, \<open>NaN\<close> stays \<open>NaN\<close>.\<close>

definition add_one :: "cell dataframe \<Rightarrow> cell dataframe" where
  "add_one df =
     \<lparr>columns = columns df,
      df_rows = map (\<lambda>r. (fst r, map (map_option (\<lambda>v. 1 + v)) (snd r))) (df_rows df)\<rparr>"

text \<open>Line 50, \<open>ret.iloc[0] = 1\<close>: a table without rows has no row 0 to assign to.\<close>

definition set_first_row :: "cell dataframe \<Rightarrow> error + cell dataframe" where
  "set_first_row df =
     (case df_rows df of
        [] \<Rightarrow> Inl IndexError
      | (t, r) # rs \<Rightarrow> Inr \<lparr>columns = columns df, df_rows = (t, map (\<lambda>_. Some 1) r) # rs\<rparr>)"

text \<open>
  Line 51, \<open>cumprod\<close>: down every column, the product of the cells so far; a \<open>NaN\<close> cell is
  skipped (the output is \<open>NaN\<close> there and the running product is kept).
\<close>

fun cumprod_rows :: "real list \<Rightarrow> (label \<times> cell list) list \<Rightarrow> (label \<times> cell list) list" where
  "cumprod_rows acc [] = []"
| "cumprod_rows acc ((t, r) # rs) =
     (t, map2 (\<lambda>a c. map_option (\<lambda>v. a * v) c) acc r)
       # cumprod_rows (map2 (\<lambda>a c. case c of None \<Rightarrow> a | Some v \<Rightarrow> a * v) acc r) rs"

definition cumprod :: "cell dataframe \<Rightarrow> cell dataframe" where
  "cumprod df =
     \<lparr>columns = columns df,
      df_rows = cumprod_rows (replicate (length (columns df)) 1) (df_rows df)\<rparr>"

definition prices_from_returns :: "cell dataframe \<Rightarrow> error + cell dataframe" where
  "prices_from_returns returns =
     (case set_first_row (add_one returns) of
        Inl e \<Rightarrow> Inl e
      | Inr ret \<Rightarrow> Inr (cumprod ret))"

subsection \<open>\<open>mean_historical_return\<close>\<close>

text \<open>
  The argument is a \<open>DataFrame\<close> or something else; something else (here: a flat sequence
  of prices) is wrapped by \<open>pd.DataFrame\<close> into one column labelled \<open>0\<close> with the
  positions as index (an empty sequence into a table with no column and no row), and a
  warning is issued. Warnings are returned with the result.
\<close>

datatype warning = RuntimeWarning string

datatype prices_arg = Frame "real dataframe" | Sequence "real list"

definition pd_DataFrame :: "real list \<Rightarrow> real dataframe" where
  "pd_DataFrame xs =
     \<lparr>columns = (if xs = [] then [] else [Pos 0]),
      df_rows = map (\<lambda>i. (Pos i, [xs ! i])) [0..<length xs]\<rparr>"

definition as_frame :: "prices_arg \<Rightarrow> warning list \<times> real dataframe" where
  "as_frame prices =
     (case prices of
        Frame df \<Rightarrow> ([], df)
      | Sequence xs \<Rightarrow> ([RuntimeWarning ''prices are not in a dataframe''], pd_DataFrame xs))"

text \<open>
  \<open>DataFrame.mean\<close> averages every column over its cells that are not \<open>NaN\<close>; a column
  without such a cell has the mean \<open>NaN\<close>.
\<close>

definition nanmean :: "cell list \<Rightarrow> cell" where
  "nanmean cs =
     (let vs = List.map_filter (\<lambda>c. c) cs
      in if vs = [] then None else Some (sum_list vs / real (length vs)))"

definition df_mean :: "cell dataframe \<Rightarrow> (label, cell) series" where
  "df_mean df =
     \<lparr>index = columns df, vals = map (\<lambda>j. nanmean (column df j)) [0..<length (columns df)]\<rparr>"

text \<open>\<open>series * frequency\<close>: every value times the scalar; \<open>NaN\<close> stays \<open>NaN\<close>.\<close>

definition scale_series :: "(label, cell) series \<Rightarrow> real \<Rightarrow> (label, cell) series" where
  "scale_series s k = \<lparr>index = index s, vals = map (map_option (\<lambda>v. v * k)) (vals s)\<rparr>"

definition mean_historical_return ::
  "prices_arg \<Rightarrow> real \<Rightarrow> warning list \<times> (label, cell) series" where
  "mean_historical_return prices frequency =
     (case as_frame prices of
        (w, df) \<Rightarrow> (let returns = returns_from_prices df
                    in (w, scale_series (df_mean returns) frequency)))"

subsection \<open>\<open>ema_historical_return\<close>\<close>

text \<open>
  The loop of pandas' \<open>ewma\<close> for \<open>adjust=True\<close>, \<open>ignore_na=False\<close>: the state is the
  weighted average so far and the total weight of the terms in it. Before the first
  observation the average is \<open>NaN\<close>. An observation equal to the average leaves the
  average as it is.
\<close>

fun ewma_step :: "real \<Rightarrow> cell \<times> real \<Rightarrow> cell \<Rightarrow> cell \<times> real" where
  "ewma_step fac (None, old_wt) cur = (cur, old_wt)"
| "ewma_step fac (Some w, old_wt) None = (Some w, old_wt * fac)"
| "ewma_step fac (Some w, old_wt) (Some c) =
     (let ow = old_wt * fac
      in (if w \<noteq> c then Some ((ow * w + 1 * c) / (ow + 1)) else Some w, ow + 1))"

fun ewma_loop :: "real \<Rightarrow> cell \<times> real \<Rightarrow> cell list \<Rightarrow> cell list" where
  "ewma_loop fac st [] = []"
| "ewma_loop fac st (c # cs) =
     (let st' = ewma_step fac st c in fst st' # ewma_loop fac st' cs)"

definition ewma :: "real \<Rightarrow> cell list \<Rightarrow> cell list" where
  "ewma com cs =
     (case cs of
        [] \<Rightarrow> []
      | c # rest \<Rightarrow> c # ewma_loop (1 - 1 / (1 + com)) (c, 1) rest)"

text \<open>
  \<open>ewm(span=span)\<close> refuses a span below 1 and turns the span into the centre of mass
  \<open>(span - 1) / 2\<close>; \<open>mean()\<close> smooths every column. (The argument \<open>span\<close> of the source is
  \<open>span0\<close> here: \<open>span\<close> is a constant of HOL.)
\<close>

definition ewm_mean :: "real \<Rightarrow> cell dataframe \<Rightarrow> error + cell dataframe" where
  "ewm_mean span0 df =
     (if span0 < 1 then Inl ValueError
      else Inr \<lparr>columns = columns df,
                df_rows = map (\<lambda>i. (fst (df_rows df ! i),
                                     map (\<lambda>j. ewma ((span0 - 1) / 2) (column df j) ! i)
                                       [0..<length (columns df)]))
                            [0..<length (df_rows df)]\<rparr>)"

text \<open>\<open>.iloc[-1]\<close>: the last row, as a series over the columns; none in an empty table.\<close>

definition iloc_last :: "cell dataframe \<Rightarrow> error + (label, cell) series" where
  "iloc_last df =
     (case df_rows df of
        [] \<Rightarrow> Inl IndexError
      | r # rs \<Rightarrow> Inr \<lparr>index = columns df, vals = snd (last (r # rs))\<rparr>)"

definition ema_historical_return ::
  "prices_arg \<Rightarrow> real \<Rightarrow> real \<Rightarrow> warning list \<times> (error + (label, cell) series)" where
  "ema_historical_return prices frequency span0 =
     (case as_frame prices of
        (w, df) \<Rightarrow>
          (let returns = returns_from_prices df
           in (w, case ewm_mean span0 returns of
                    Inl e \<Rightarrow> Inl e
                  | Inr smoothed \<Rightarrow>
                      (case iloc_last smoothed of
                         Inl e \<Rightarrow> Inl e
                       | Inr s \<Rightarrow> Inr (scale_series s frequency)))))"


section \<open>Double precision\<close>

text \<open>
  The numbers of numpy and pandas are IEEE 754 doubles. Every arithmetic operation on
  doubles returns the exact result rounded to the nearest double, a tie going to the
  double whose last digit is even. \<open>fl\<close> is that rounding on the reals: a double is an
  integer of at most 53 binary digits times a power of two, the power no smaller than
  \<open>pow2 (-1074)\<close>. The overflow to \<open>inf\<close> beyond the largest double is not modelled.
\<close>

definition rne :: "real \<Rightarrow> int" where
  "rne x = (let f = \<lfloor>x\<rfloor>; d = x - of_int f
            in if d < 1/2 then f else if 1/2 < d then f + 1
               else if even f then f else f + 1)"

text \<open>
  The binary exponent \<open>e\<close> of a positive real \<open>x\<close>: \<open>x\<close> lies between \<open>2\<close> to the power \<open>e\<close>
  (included) and \<open>2\<close> to the power \<open>e + 1\<close> (excluded).
\<close>

function expo :: "real \<Rightarrow> int" where
  "expo x = (if x \<le> 0 then 0
             else if 2 \<le> x then expo (x / 2) + 1
             else if x < 1 then expo (2 * x) - 1
             else 0)"
  by pat_completeness auto
termination
proof (relation "measure (\<lambda>x. nat (2 * \<lceil>1 / x\<rceil> + \<lfloor>x\<rfloor>))")
  show "wf (measure (\<lambda>x. nat (2 * \<lceil>1 / x\<rceil> + \<lfloor>x\<rfloor>)))" by simp
next
  fix x :: real assume "\<not> x \<le> 0" "2 \<le> x"
  then have a: "\<lceil>1 / x\<rceil> = 1" "\<lceil>1 / (x / 2)\<rceil> = 1"
    by (simp_all add: ceiling_eq_iff field_simps)
  from \<open>2 \<le> x\<close> have "x / 2 \<le> x - 1" by simp
  then have "\<lfloor>x / 2\<rfloor> \<le> \<lfloor>x - 1\<rfloor>" by (rule floor_mono)
  then have b: "\<lfloor>x / 2\<rfloor> < \<lfloor>x\<rfloor>" by simp
  from \<open>2 \<le> x\<close> have c: "0 \<le> \<lfloor>x / 2\<rfloor>" by simp
  from b c have "nat (2 * 1 + \<lfloor>x / 2\<rfloor>) < nat (2 * 1 + \<lfloor>x\<rfloor>)" by linarith
  then show "(x / 2, x) \<in> measure (\<lambda>x. nat (2 * \<lceil>1 / x\<rceil> + \<lfloor>x\<rfloor>))"
    unfolding in_measure a .
next
  fix x :: real assume h: "\<not> x \<le> 0" "\<not> 2 \<le> x" "x < 1"
  then have f0: "\<lfloor>x\<rfloor> = 0" by (simp add: floor_eq_iff)
  from h have f1: "\<lfloor>2 * x\<rfloor> \<le> 1" "0 \<le> \<lfloor>2 * x\<rfloor>" by (simp_all add: floor_le_iff)
  show "(2 * x, x) \<in> measure (\<lambda>x. nat (2 * \<lceil>1 / x\<rceil> + \<lfloor>x\<rfloor>))"
  proof (cases "x < 1/2")
    case True
    then have g0: "\<lfloor>2 * x\<rfloor> = 0" using h by (simp add: floor_eq_iff)
    from True h have "1 / (2 * x) \<le> 1 / x - 1" by (simp add: field_simps)
    then have "\<lceil>1 / (2 * x)\<rceil> \<le> \<lceil>1 / x - 1\<rceil>" by (rule ceiling_mono)
    then have g1: "\<lceil>1 / (2 * x)\<rceil> < \<lceil>1 / x\<rceil>" by simp
    from h have g2: "0 < \<lceil>1 / (2 * x)\<rceil>" by (simp add: field_simps)
    from g1 g2 have "nat (2 * \<lceil>1 / (2 * x)\<rceil> + 0) < nat (2 * \<lceil>1 / x\<rceil> + 0)"
      by linarith
    then show ?thesis unfolding in_measure f0 g0 .
  next
    case False
    with h have g1: "\<lceil>1 / (2 * x)\<rceil> = 1" by (simp add: ceiling_eq_iff field_simps)
    from False h have g2: "\<lceil>1 / x\<rceil> = 2" by (simp add: ceiling_eq_iff field_simps)
    from f1 have "nat (2 * 1 + \<lfloor>2 * x\<rfloor>) < nat (2 * 2 + 0)" by linarith
    then show ?thesis unfolding in_measure f0 g1 g2 .
  qed
qed

definition pow2 :: "int \<Rightarrow> real" where
  "pow2 e = (if 0 \<le> e then 2 ^ nat e else 1 / 2 ^ nat (- e))"

text \<open>
  The spacing of the doubles around \<open>x\<close> is \<open>pow2 (e - 52)\<close> for the exponent \<open>e\<close> of \<open>x\<close>,
  and \<open>pow2 (-1074)\<close> below \<open>pow2 (-1022)\<close>; \<open>x\<close> is rounded to a multiple of the spacing.
\<close>

definition fl :: "real \<Rightarrow> real" where
  "fl x = (if x = 0 then 0
           else (let u = pow2 (max (expo \<bar>x\<bar>) (- 1022) - 52)
                 in sgn x * of_int (rne (\<bar>x\<bar> / u)) * u))"

subsection \<open>\<open>mean_historical_return\<close> in doubles\<close>

text \<open>
  The operations of \<open>mean_historical_return\<close> with the rounding of every step: prices
  and \<open>frequency\<close> are doubles. \<open>pct_change\<close> divides and then subtracts one; the mean
  adds the returns of a column one after the other and divides by their number (numpy
  adds a long column in blocks, which moves the last digits of the sum only).
\<close>

definition ratio_f64 :: "real \<Rightarrow> real \<Rightarrow> cell" where
  "ratio_f64 p q = (if q = 0 then None else Some (fl (fl (p / q) - 1)))"

fun changes_f64 :: "real list \<Rightarrow> (label \<times> real list) list \<Rightarrow> (label \<times> cell list) list" where
  "changes_f64 prev [] = []"
| "changes_f64 prev ((t, r) # rs) = (t, map2 ratio_f64 r prev) # changes_f64 r rs"

definition pct_change_f64 :: "real dataframe \<Rightarrow> cell dataframe" where
  "pct_change_f64 df =
     \<lparr>columns = columns df,
      df_rows = (case df_rows df of
                   [] \<Rightarrow> []
                 | (t, r) # rs \<Rightarrow> (t, map (\<lambda>_. None) r) # changes_f64 r rs)\<rparr>"

definition returns_from_prices_f64 :: "real dataframe \<Rightarrow> cell dataframe" where
  "returns_from_prices_f64 prices = dropna_all (pct_change_f64 prices)"

definition nanmean_f64 :: "cell list \<Rightarrow> cell" where
  "nanmean_f64 cs =
     (let vs = List.map_filter (\<lambda>c. c) cs
      in if vs = [] then None
         else Some (fl (foldl (\<lambda>s v. fl (s + v)) 0 vs / real (length vs))))"

definition df_mean_f64 :: "cell dataframe \<Rightarrow> (label, cell) series" where
  "df_mean_f64 df =
     \<lparr>index = columns df,
      vals = map (\<lambda>j. nanmean_f64 (column df j)) [0..<length (columns df)]\<rparr>"

definition scale_series_f64 :: "(label, cell) series \<Rightarrow> real \<Rightarrow> (label, cell) series" where
  "scale_series_f64 s k =
     \<lparr>index = index s, vals = map (map_option (\<lambda>v. fl (v * k))) (vals s)\<rparr>"

definition mean_historical_return_f64 ::
  "prices_arg \<Rightarrow> real \<Rightarrow> warning list \<times> (label, cell) series" where
  "mean_historical_return_f64 prices frequency =
     (case as_frame prices of
        (w, df) \<Rightarrow> (let returns = returns_from_prices_f64 df
                    in (w, scale_series_f64 (df_mean_f64 returns) frequency)))"
section \<open>Linear systems and inverses, as the specification speaks of them\<close>

definition solves :: "equation list \<Rightarrow> real list \<Rightarrow> bool" where
  "solves es xs = list_all (\<lambda>e. dot (fst e) xs = snd e) es"

definition well_shaped :: "nat \<Rightarrow> equation list \<Rightarrow> bool" where
  "well_shaped n es = (length es = n \<and> list_all (\<lambda>e. length (fst e) = n) es)"

definition is_inverse :: "ndarray \<Rightarrow> ndarray \<Rightarrow> bool" where
  "is_inverse M B =
     (wf_array B \<and> nrows B = nrows M \<and> ncols B = nrows M
      \<and> mat_mult M B = eye (nrows M) \<and> mat_mult B M = eye (nrows M))"

definition invertible :: "ndarray \<Rightarrow> bool" where
  "invertible M = (\<exists>B. is_inverse M B)"

definition square :: "nat \<Rightarrow> ndarray \<Rightarrow> bool" where
  "square n M = (wf_array M \<and> nrows M = n \<and> ncols M = n)"

text \<open>
  The linear system of step 5 of the specification, for a given inverse \<open>TSI\<close> of
  \<open>tau * Sigma\<close>: the matrix \<open>TSI + P\<^sup>T Omega_inv P\<close> and the right-hand side
  \<open>TSI Pi + P\<^sup>T Omega_inv Q\<close>.
\<close>

definition posterior_A :: "ndarray \<Rightarrow> ndarray \<Rightarrow> ndarray \<Rightarrow> ndarray" where
  "posterior_A TSI P Omega =
     mat_add TSI (mat_mult (mat_mult (transpose_T P) (Omega_inv Omega)) P)"

definition posterior_b ::
  "ndarray \<Rightarrow> ndarray \<Rightarrow> ndarray \<Rightarrow> real list \<Rightarrow> real list \<Rightarrow> real list" where
  "posterior_b TSI P Omega p q =
     vec_add (mat_vec TSI p) (mat_vec (mat_mult (transpose_T P) (Omega_inv Omega)) q)"

text \<open>Reading a table by position: the cell of row \<open>t\<close> and column \<open>a\<close>, and the row labels.\<close>

definition cell_at :: "'v dataframe \<Rightarrow> nat \<Rightarrow> nat \<Rightarrow> 'v" where
  "cell_at df t a = snd (df_rows df ! t) ! a"

definition row_labels :: "'v dataframe \<Rightarrow> label list" where
  "row_labels df = map fst (df_rows df)"

definition nonzero_prices :: "real dataframe \<Rightarrow> bool" where
  "nonzero_prices df = list_all (\<lambda>r. list_all (\<lambda>p. p \<noteq> 0) (snd r)) (df_rows df)"

text \<open>
  The period-over-period returns of one asset, read off the price table, the arithmetic
  mean, and the exponentially weighted average with weight \<open>(1 - alpha)\<^sup>k\<close> on the value
  \<open>k\<close> periods before the last.
\<close>

definition asset_returns :: "real dataframe \<Rightarrow> nat \<Rightarrow> real list" where
  "asset_returns df a =
     map (\<lambda>t. (cell_at df (Suc t) a - cell_at df t a) / cell_at df t a)
       [0..<length (df_rows df) - 1]"

definition arithmetic_mean :: "real list \<Rightarrow> real" where
  "arithmetic_mean xs = sum_list xs / real (length xs)"

definition ewm_average :: "real \<Rightarrow> real list \<Rightarrow> real" where
  "ewm_average alpha xs =
     (\<Sum>i<length xs. (1 - alpha) ^ (length xs - 1 - i) * xs ! i)
       / (\<Sum>i<length xs. (1 - alpha) ^ (length xs - 1 - i))"

section \<open>Shapes and entries of the array operations\<close>

lemma length_diag_vec: "length (diag_vec M) = min (nrows M) (ncols M)"
  by (simp add: diag_vec_def)

lemma nrows_diag_mat: "nrows (diag_mat v) = length v"
  by (simp add: diag_mat_def nrows_def)

lemma ncols_diag_mat: "ncols (diag_mat v) = length v"
  by (simp add: diag_mat_def)

lemma diag_mat_entry:
  "i < length v \<Longrightarrow> j < length v \<Longrightarrow> rows (diag_mat v) ! i ! j = (if i = j then v ! i else 0)"
  by (simp add: diag_mat_def)


lemma eye_entry: "i < n \<Longrightarrow> j < n \<Longrightarrow> rows (eye n) ! i ! j = (if i = j then 1 else 0)"
  by (simp add: eye_def)

lemma nrows_eye: "nrows (eye n) = n"
  by (simp add: eye_def nrows_def)

lemma ncols_eye: "ncols (eye n) = n"
  by (simp add: eye_def)

lemma default_Omega_eq:
  "ncols P = nrows Sigma0 \<Longrightarrow> ncols Sigma0 = ncols P \<Longrightarrow>
   default_Omega tau P Sigma0 =
     Inr (diag_mat (diag_vec (mat_mult (mat_mult (scalar_mul tau P) Sigma0) (transpose_T P))))"
  by (simp add: default_Omega_def matmul_def scalar_mul_def mat_mult_def transpose_T_def nrows_def)

section \<open>Correctness of the elimination\<close>

lemma dot_Nil [simp]: "dot [] ys = 0" "dot xs [] = 0"
  by (simp_all add: dot_def)

lemma dot_Cons [simp]: "dot (a # as) (x # xs) = a * x + dot as xs"
  by (simp add: dot_def)

lemma dot_replicate_zero: "dot as (replicate n 0) = 0"
proof (induction as arbitrary: n)
  case Nil
  then show ?case by simp
next
  case (Cons a as)
  then show ?case by (cases n) simp_all
qed

lemma dot_eliminate:
  "length bs = length as \<Longrightarrow>
   dot (map2 (\<lambda>y x. y - k * x) bs as) ys = dot bs ys - k * dot as ys"
proof (induction bs as arbitrary: ys rule: list_induct2)
  case Nil
  then show ?case by simp
next
  case (Cons b bs a as)
  then show ?case by (cases ys) (simp_all add: algebra_simps)
qed

lemma pivot_split_Some:
  "pivot_split es = Some (p, rest) \<Longrightarrow>
   lead p \<noteq> 0 \<and> set es = insert p (set rest) \<and> length es = Suc (length rest)"
proof (induction es arbitrary: p rest)
  case Nil
  then show ?case by simp
next
  case (Cons e es)
  show ?case
  proof (cases "lead e \<noteq> 0")
    case True
    with Cons.prems show ?thesis by auto
  next
    case False
    with Cons.prems obtain r where ps: "pivot_split es = Some (p, r)" and rest: "rest = e # r"
      by (auto split: option.splits)
    from Cons.IH [OF ps] rest show ?thesis by auto
  qed
qed

lemma pivot_split_None: "pivot_split es = None \<Longrightarrow> e \<in> set es \<Longrightarrow> lead e = 0"
  by (induction es) (auto split: if_splits option.splits)

lemma lead_Cons: "fst e = a # as \<Longrightarrow> lead e = a"
  by (simp add: lead_def)

lemma shaped_eq:
  assumes "length (fst e) = Suc n"
  obtains a as where "fst e = a # as" "length as = n" "lead e = a"
  using assms by (cases "fst e") (auto simp: lead_def)

lemma well_shaped_eliminate:
  assumes ws: "well_shaped (Suc n) es" and ps: "pivot_split es = Some (p, rest)"
  shows "well_shaped n (map (eliminate p) rest)"
proof -
  from pivot_split_Some [OF ps] have s: "set es = insert p (set rest)" and l: "length es = Suc (length rest)"
    by auto
  from ws s have lp: "length (fst p) = Suc n" and lr: "\<forall>e\<in>set rest. length (fst e) = Suc n"
    by (auto simp: well_shaped_def list_all_iff)
  from ws l have "length rest = n" by (simp add: well_shaped_def)
  moreover have "\<forall>e\<in>set rest. length (fst (eliminate p e)) = n"
    using lp lr by (auto simp: eliminate_def Let_def)
  ultimately show ?thesis by (simp add: well_shaped_def list_all_iff)
qed

text \<open>One elimination step, seen from a vector \<open>x # ys\<close>.\<close>

lemma eliminate_dot:
  assumes lp: "length (fst p) = Suc n" and le: "length (fst e) = Suc n" and nz: "lead p \<noteq> 0"
    and p: "dot (fst p) (x # ys) = cp"
  shows "dot (fst (eliminate p e)) ys = dot (fst e) (x # ys) - lead e / lead p * cp"
proof -
  from lp obtain a as where P: "fst p = a # as" "length as = n" "lead p = a" by (rule shaped_eq)
  from le obtain b bs where E: "fst e = b # bs" "length bs = n" "lead e = b" by (rule shaped_eq)
  have "dot (fst (eliminate p e)) ys = dot bs ys - b / a * dot as ys"
    using P E dot_eliminate [of bs as "b / a" ys] by (simp add: eliminate_def Let_def)
  also have "\<dots> = (b * x + dot bs ys) - b / a * (a * x + dot as ys)"
    using nz P by (simp add: algebra_simps)
  finally show ?thesis using P E p by simp
qed

lemma gauss_sound:
  "well_shaped n es \<Longrightarrow> gauss n es = Some xs \<Longrightarrow> length xs = n \<and> solves es xs"
proof (induction n arbitrary: es xs)
  case 0
  then show ?case by (simp add: well_shaped_def solves_def)
next
  case (Suc n)
  from Suc.prems(2) obtain p rest ys where
    ps: "pivot_split es = Some (p, rest)" and
    gs: "gauss n (map (eliminate p) rest) = Some ys" and
    xs: "xs = (snd p - dot (tl (fst p)) ys) / lead p # ys"
    by (auto split: option.splits)
  from pivot_split_Some [OF ps] have nz: "lead p \<noteq> 0" and s: "set es = insert p (set rest)" by auto
  from Suc.prems(1) s have lp: "length (fst p) = Suc n" and lr: "\<forall>e\<in>set rest. length (fst e) = Suc n"
    by (auto simp: well_shaped_def list_all_iff)
  from Suc.IH [OF well_shaped_eliminate [OF Suc.prems(1) ps] gs]
  have ly: "length ys = n" and sy: "solves (map (eliminate p) rest) ys" by auto
  define x where "x = (snd p - dot (tl (fst p)) ys) / lead p"
  from lp obtain a as where P: "fst p = a # as" "length as = n" "lead p = a" by (rule shaped_eq)
  have px: "dot (fst p) (x # ys) = snd p"
    using nz P by (simp add: x_def)
  have "dot (fst e) (x # ys) = snd e" if "e \<in> set rest" for e
  proof -
    from that lr have le: "length (fst e) = Suc n" by simp
    from sy that have "dot (fst (eliminate p e)) ys = snd (eliminate p e)"
      by (simp add: solves_def list_all_iff)
    with eliminate_dot [OF lp le nz px] show ?thesis
      by (simp add: eliminate_def Let_def)
  qed
  with px s have "solves es (x # ys)"
    by (auto simp: solves_def list_all_iff)
  with ly xs show ?case by (simp add: x_def)
qed

lemma gauss_unique:
  "well_shaped n es \<Longrightarrow> gauss n es = Some xs \<Longrightarrow> length zs = n \<Longrightarrow> solves es zs \<Longrightarrow> zs = xs"
proof (induction n arbitrary: es xs zs)
  case 0
  then show ?case by simp
next
  case (Suc n)
  from Suc.prems(2) obtain p rest ys where
    ps: "pivot_split es = Some (p, rest)" and
    gs: "gauss n (map (eliminate p) rest) = Some ys" and
    xs: "xs = (snd p - dot (tl (fst p)) ys) / lead p # ys"
    by (auto split: option.splits)
  from pivot_split_Some [OF ps] have nz: "lead p \<noteq> 0" and s: "set es = insert p (set rest)" by auto
  from Suc.prems(1) s have lp: "length (fst p) = Suc n" and lr: "\<forall>e\<in>set rest. length (fst e) = Suc n"
    by (auto simp: well_shaped_def list_all_iff)
  from Suc.prems(3) obtain z zt where zs: "zs = z # zt" and lz: "length zt = n"
    by (cases zs) auto
  from Suc.prems(4) s zs have pz: "dot (fst p) (z # zt) = snd p"
    and rz: "\<forall>e\<in>set rest. dot (fst e) (z # zt) = snd e"
    by (auto simp: solves_def list_all_iff)
  have "solves (map (eliminate p) rest) zt"
    unfolding solves_def list_all_iff
  proof
    fix e' assume "e' \<in> set (map (eliminate p) rest)"
    then obtain e where e: "e \<in> set rest" and e': "e' = eliminate p e" by auto
    from e lr have le: "length (fst e) = Suc n" by simp
    from eliminate_dot [OF lp le nz pz] rz e
    show "dot (fst e') zt = snd e'" by (simp add: e' eliminate_def Let_def)
  qed
  from Suc.IH [OF well_shaped_eliminate [OF Suc.prems(1) ps] gs lz this] have zt: "zt = ys" .
  from lp obtain a as where P: "fst p = a # as" "length as = n" "lead p = a" by (rule shaped_eq)
  from pz P nz have "z = (snd p - dot (tl (fst p)) zt) / lead p"
    by (simp add: field_simps)
  with zs zt xs show ?case by simp
qed

lemma gauss_None_kernel:
  "well_shaped n es \<Longrightarrow> gauss n es = None \<Longrightarrow>
   \<exists>x. length x = n \<and> x \<noteq> replicate n 0 \<and> (\<forall>e\<in>set es. dot (fst e) x = 0)"
proof (induction n arbitrary: es)
  case 0
  then show ?case by simp
next
  case (Suc n)
  show ?case
  proof (cases "pivot_split es")
    case None
    have "dot (fst e) (1 # replicate n 0) = 0" if "e \<in> set es" for e
    proof -
      from that Suc.prems(1) have "length (fst e) = Suc n" by (simp add: well_shaped_def list_all_iff)
      then obtain a as where E: "fst e = a # as" "length as = n" "lead e = a" by (rule shaped_eq)
      from pivot_split_None [OF None that] E show ?thesis by (simp add: dot_replicate_zero)
    qed
    then show ?thesis
      by (intro exI [of _ "1 # replicate n 0"]) simp
  next
    case (Some pr)
    then obtain p rest where ps: "pivot_split es = Some (p, rest)" by (cases pr) auto
    with Suc.prems(2) have gn: "gauss n (map (eliminate p) rest) = None"
      by (auto split: option.splits)
    from pivot_split_Some [OF ps] have nz: "lead p \<noteq> 0" and s: "set es = insert p (set rest)" by auto
    from Suc.prems(1) s have lp: "length (fst p) = Suc n" and lr: "\<forall>e\<in>set rest. length (fst e) = Suc n"
      by (auto simp: well_shaped_def list_all_iff)
    from Suc.IH [OF well_shaped_eliminate [OF Suc.prems(1) ps] gn]
    obtain y where ly: "length y = n" and ny: "y \<noteq> replicate n 0"
      and ky: "\<forall>e\<in>set rest. dot (fst (eliminate p e)) y = 0" by auto
    define x where "x = - dot (tl (fst p)) y / lead p"
    from lp obtain a as where P: "fst p = a # as" "length as = n" "lead p = a" by (rule shaped_eq)
    have px: "dot (fst p) (x # y) = 0" using nz P by (simp add: x_def)
    have "dot (fst e) (x # y) = 0" if "e \<in> set rest" for e
    proof -
      from that lr have le: "length (fst e) = Suc n" by simp
      from eliminate_dot [OF lp le nz px] ky that show ?thesis by simp
    qed
    with px s have "\<forall>e\<in>set es. dot (fst e) (x # y) = 0" by auto
    moreover have "x # y \<noteq> replicate (Suc n) 0" using ny by auto
    ultimately show ?thesis using ly by (intro exI [of _ "x # y"]) simp
  qed
qed

section \<open>Matrix algebra on arrays\<close>

lemma dot_sum: "dot xs ys = (\<Sum>i<min (length xs) (length ys). xs ! i * ys ! i)"
proof (induction xs arbitrary: ys)
  case Nil
  then show ?case by simp
next
  case (Cons a as)
  show ?case
  proof (cases ys)
    case Nil
    then show ?thesis by simp
  next
    case (Cons y yt)
    then show ?thesis
      by (simp add: Cons.IH sum.lessThan_Suc_shift del: sum.lessThan_Suc)
  qed
qed



lemma dot_unit_vec_left: "j < n \<Longrightarrow> length x = n \<Longrightarrow> dot (unit_vec n j) x = x ! j"
  by (simp add: dot_sum unit_vec_def if_distrib [of "\<lambda>v. v * _"] sum.delta' cong: if_cong)

lemma mat_vec_assoc_row:
  assumes wfB: "\<forall>b\<in>set bs. length b = c" and lx: "length x = c"
  shows "dot (map (\<lambda>j. dot r (map (\<lambda>b. b ! j) bs)) [0..<c]) x = dot r (map (\<lambda>b. dot b x) bs)"
proof -
  let ?m = "min (length r) (length bs)"
  have "dot (map (\<lambda>j. dot r (map (\<lambda>b. b ! j) bs)) [0..<c]) x
        = (\<Sum>j<c. (\<Sum>k<?m. r ! k * bs ! k ! j) * x ! j)"
    using lx by (simp add: dot_sum)
  also have "\<dots> = (\<Sum>j<c. \<Sum>k<?m. r ! k * (bs ! k ! j * x ! j))"
    by (simp add: sum_distrib_right mult.assoc)
  also have "\<dots> = (\<Sum>k<?m. \<Sum>j<c. r ! k * (bs ! k ! j * x ! j))"
    by (rule sum.swap)
  also have "\<dots> = (\<Sum>k<?m. r ! k * (\<Sum>j<c. bs ! k ! j * x ! j))"
    by (simp add: sum_distrib_left)
  also have "\<dots> = dot r (map (\<lambda>b. dot b x) bs)"
    using wfB lx by (simp add: dot_sum)
  finally show ?thesis .
qed

lemma mat_vec_assoc:
  "wf_array B \<Longrightarrow> length x = ncols B \<Longrightarrow>
   mat_vec (mat_mult A B) x = mat_vec A (mat_vec B x)"
  by (simp add: mat_vec_def mat_mult_def col_def wf_array_def list_all_iff mat_vec_assoc_row)

lemma eye_row: "i < n \<Longrightarrow> rows (eye n) ! i = unit_vec n i"
  by (auto simp: eye_def unit_vec_def)

lemma mat_vec_eye: "length x = n \<Longrightarrow> mat_vec (eye n) x = x"
proof (rule nth_equalityI)
  show "length (mat_vec (eye n) x) = length x" if "length x = n"
    using that by (simp add: mat_vec_def eye_def)
next
  fix i assume "length x = n" "i < length (mat_vec (eye n) x)"
  then have i: "i < n" and lx: "length x = n" by (simp_all add: mat_vec_def eye_def)
  then have "mat_vec (eye n) x ! i = dot (rows (eye n) ! i) x"
    by (simp add: mat_vec_def eye_def)
  with i lx show "mat_vec (eye n) x ! i = x ! i"
    by (simp add: eye_row dot_unit_vec_left)
qed


lemma mat_vec_zero: "mat_vec M (replicate n 0) = replicate (nrows M) 0"
  by (rule nth_equalityI) (simp_all add: mat_vec_def nrows_def dot_replicate_zero)

lemma col_mat_mult: "j < ncols B \<Longrightarrow> col (mat_mult A B) j = mat_vec A (col B j)"
  by (simp add: col_def mat_mult_def mat_vec_def)


lemma col_eye: "j < n \<Longrightarrow> col (eye n) j = unit_vec n j"
  by (rule nth_equalityI) (auto simp add: col_def eye_def unit_vec_def)

lemma length_col: "length (col M j) = nrows M"
  by (simp add: col_def nrows_def)

lemma array_eqI:
  assumes "wf_array A" "wf_array B" "nrows A = nrows B" "ncols A = ncols B"
    and cols: "\<And>j. j < ncols A \<Longrightarrow> col A j = col B j"
  shows "A = B"
proof -
  have "rows A = rows B"
  proof (rule nth_equalityI)
    show "length (rows A) = length (rows B)" using assms(3) by (simp add: nrows_def)
  next
    fix i assume i: "i < length (rows A)"
    with assms have la: "length (rows A ! i) = ncols A" and lb: "length (rows B ! i) = ncols A"
      by (simp_all add: wf_array_def list_all_length nrows_def)
    show "rows A ! i = rows B ! i"
    proof (rule nth_equalityI)
      show "length (rows A ! i) = length (rows B ! i)" using la lb by simp
    next
      fix j assume "j < length (rows A ! i)"
      with la have j: "j < ncols A" by simp
      from cols [OF j] have "col A j ! i = col B j ! i" by simp
      with i assms(3) show "rows A ! i ! j = rows B ! i ! j"
        by (simp add: col_def nrows_def)
    qed
  qed
  with assms(4) show ?thesis by simp
qed

lemma wf_transpose_T: "wf_array (transpose_T M)"
  by (simp add: wf_array_def transpose_T_def list_all_iff col_def nrows_def)

lemma col_transpose_T: "wf_array M \<Longrightarrow> i < nrows M \<Longrightarrow> col (transpose_T M) i = rows M ! i"
  by (rule nth_equalityI)
    (simp_all add: col_def transpose_T_def wf_array_def list_all_length nrows_def)

lemma row_transpose_T: "j < ncols M \<Longrightarrow> rows (transpose_T M) ! j = col M j"
  by (simp add: transpose_T_def)


section \<open>What \<open>solve\<close> and \<open>inv\<close> return\<close>

lemma solves_zip:
  "length b = length rs \<Longrightarrow> solves (zip rs b) x \<longleftrightarrow> map (\<lambda>r. dot r x) rs = b"
proof (induction rs arbitrary: b)
  case Nil
  then show ?case by (simp add: solves_def)
next
  case (Cons r rs)
  then show ?case by (cases b) (auto simp: solves_def)
qed

lemma kernel_zip:
  "length b = length rs \<Longrightarrow>
   (\<forall>e\<in>set (zip rs b). dot (fst e) x = 0) \<longleftrightarrow> map (\<lambda>r. dot r x) rs = replicate (length rs) 0"
proof (induction rs arbitrary: b)
  case Nil
  then show ?case by simp
next
  case (Cons r rs)
  then show ?case by (cases b) auto
qed

lemma well_shaped_zip:
  "square n M \<Longrightarrow> length b = n \<Longrightarrow> well_shaped n (zip (rows M) b)"
  by (auto simp: square_def well_shaped_def wf_array_def nrows_def list_all_iff dest: set_zip_leftD)

lemma gauss_mat_sound:
  assumes "square n M" "length b = n" "gauss n (zip (rows M) b) = Some x"
  shows "length x = n \<and> mat_vec M x = b"
  using gauss_sound [OF well_shaped_zip [OF assms(1,2)] assms(3)] assms(1,2)
  by (simp add: solves_zip mat_vec_def square_def nrows_def)

lemma gauss_mat_unique:
  assumes "square n M" "length b = n" "gauss n (zip (rows M) b) = Some x"
    and "length z = n" "mat_vec M z = b"
  shows "z = x"
proof -
  have "solves (zip (rows M) b) z"
    using assms(1,2,5) by (simp add: solves_zip mat_vec_def square_def nrows_def)
  from gauss_unique [OF well_shaped_zip [OF assms(1,2)] assms(3,4) this] show ?thesis .
qed

lemma gauss_mat_None:
  assumes "square n M" "length b = n" "gauss n (zip (rows M) b) = None"
  shows "\<exists>x. length x = n \<and> x \<noteq> replicate n 0 \<and> mat_vec M x = replicate n 0"
proof -
  from gauss_None_kernel [OF well_shaped_zip [OF assms(1,2)] assms(3)]
  obtain x where "length x = n" "x \<noteq> replicate n 0" "\<forall>e\<in>set (zip (rows M) b). dot (fst e) x = 0"
    by auto
  with assms(1,2) show ?thesis
    by (intro exI [of _ x]) (simp add: kernel_zip mat_vec_def square_def nrows_def)
qed


lemma inverse_kernel:
  assumes sq: "square n M" and inv: "is_inverse M B" and lz: "length z = n"
    and kz: "mat_vec M z = replicate n 0"
  shows "z = replicate n 0"
proof -
  from sq inv have BM: "mat_mult B M = eye n" and nB: "nrows B = n"
    by (simp_all add: is_inverse_def square_def)
  from sq lz have "mat_vec (mat_mult B M) z = mat_vec B (mat_vec M z)"
    by (intro mat_vec_assoc) (simp_all add: square_def)
  with BM lz kz nB show ?thesis by (simp add: mat_vec_eye mat_vec_zero)
qed

lemma invertible_gauss:
  assumes sq: "square n M" and inv: "invertible M" and lb: "length b = n"
  shows "\<exists>x. gauss n (zip (rows M) b) = Some x"
proof (rule ccontr)
  assume "\<not> ?thesis"
  then have "gauss n (zip (rows M) b) = None" by simp
  from gauss_mat_None [OF sq lb this] obtain x where
    "length x = n" "x \<noteq> replicate n 0" "mat_vec M x = replicate n 0" by auto
  moreover from inv obtain B where "is_inverse M B" by (auto simp: invertible_def)
  ultimately show False using inverse_kernel [OF sq] by blast
qed

lemma those_map_Some: "those (map Some ys) = Some ys"
  by (induction ys) simp_all


lemma those_None_D: "those xs = None \<Longrightarrow> None \<in> set xs"
  by (induction xs) (auto split: option.splits)

lemma wf_mat_mult: "wf_array (mat_mult A B)"
  by (simp add: wf_array_def mat_mult_def list_all_iff)

lemma nrows_mat_mult: "nrows (mat_mult A B) = nrows A"
  by (simp add: mat_mult_def nrows_def)

lemma ncols_mat_mult: "ncols (mat_mult A B) = ncols B"
  by (simp add: mat_mult_def)


lemma length_unit_vec: "length (unit_vec n j) = n"
  by (simp add: unit_vec_def)

lemma length_mat_vec: "length (mat_vec M x) = nrows M"
  by (simp add: mat_vec_def nrows_def)

lemma transpose_T_twice: "wf_array B \<Longrightarrow> transpose_T (transpose_T B) = B"
proof (rule array_eqI)
  show "wf_array (transpose_T (transpose_T B))" by (rule wf_transpose_T)
  show "nrows (transpose_T (transpose_T B)) = nrows B" "ncols (transpose_T (transpose_T B)) = ncols B"
    by (simp_all add: transpose_T_def nrows_def)
next
  fix j assume "wf_array B" "j < ncols (transpose_T (transpose_T B))"
  then have j: "j < ncols B" by (simp add: transpose_T_def nrows_def)
  then have "col (transpose_T (transpose_T B)) j = rows (transpose_T B) ! j"
    by (intro col_transpose_T wf_transpose_T) (simp add: transpose_T_def nrows_def)
  with j show "col (transpose_T (transpose_T B)) j = col B j"
    by (simp add: row_transpose_T)
qed





lemma linalg_inv_complete:
  assumes sq: "square n M" and inv: "is_inverse M B"
  shows "linalg_inv M = Inr B"
proof -
  from sq have nM: "nrows M = n" "ncols M = n" by (simp_all add: square_def)
  from inv nM have wfB: "wf_array B" and nB: "nrows B = n" "ncols B = n"
    and MB: "mat_mult M B = eye n"
    by (simp_all add: is_inverse_def)
  have ivt: "invertible M" using inv by (auto simp: invertible_def)
  have g: "gauss n (zip (rows M) (unit_vec n j)) = Some (col B j)" if "j < n" for j
  proof -
    from invertible_gauss [OF sq ivt length_unit_vec] obtain x where
      x: "gauss n (zip (rows M) (unit_vec n j)) = Some x" by auto
    have "mat_vec M (col B j) = unit_vec n j"
      using that col_mat_mult [of j B M] by (simp add: nB MB col_eye)
    from gauss_mat_unique [OF sq length_unit_vec x _ this] x nB show ?thesis
      by (simp add: length_col)
  qed
  have "map (\<lambda>j. gauss n (zip (rows M) (unit_vec n j))) [0..<n] = map Some (map (col B) [0..<n])"
    using g by simp
  then have "those (map (\<lambda>j. gauss n (zip (rows M) (unit_vec n j))) [0..<n]) = Some (map (col B) [0..<n])"
    by (simp only: those_map_Some)
  moreover have "transpose_T \<lparr>ncols = n, rows = map (col B) [0..<n]\<rparr> = B"
    using transpose_T_twice [OF wfB] nB by (simp add: transpose_T_def [of B])
  ultimately show ?thesis using nM by (simp add: linalg_inv_def)
qed


lemma linalg_solve_sound:
  assumes sq: "square n A" and s: "linalg_solve A b = Inr x"
  shows "length x = n \<and> mat_vec A x = b"
proof -
  from sq have nA: "nrows A = n" "ncols A = n" by (simp_all add: square_def)
  from s nA have lb: "length b = n" and g: "gauss n (zip (rows A) b) = Some x"
    by (auto simp: linalg_solve_def split: if_splits option.splits)
  from gauss_mat_sound [OF sq lb g] show ?thesis .
qed

lemma linalg_solve_invertible:
  assumes sq: "square n A" and inv: "invertible A" and lb: "length b = n"
  shows "\<exists>x. linalg_solve A b = Inr x \<and> length x = n \<and> mat_vec A x = b
             \<and> (\<forall>z. length z = n \<and> mat_vec A z = b \<longrightarrow> z = x)"
proof -
  from sq have nA: "nrows A = n" "ncols A = n" by (simp_all add: square_def)
  from invertible_gauss [OF sq inv lb] obtain x where g: "gauss n (zip (rows A) b) = Some x"
    by auto
  then have "linalg_solve A b = Inr x" using nA lb by (simp add: linalg_solve_def)
  moreover note gauss_mat_sound [OF sq lb g]
  moreover have "\<forall>z. length z = n \<and> mat_vec A z = b \<longrightarrow> z = x"
    using gauss_mat_unique [OF sq lb g] by blast
  ultimately show ?thesis by blast
qed



section \<open>The posterior solves the linear system\<close>

lemma broadcast_id: "length xs = n \<Longrightarrow> broadcast n xs = xs"
proof (cases "length xs = 1")
  case True
  then obtain x where "xs = [x]" by (cases xs) auto
  moreover assume "length xs = n"
  ultimately show ?thesis by (auto simp: broadcast_def)
next
  case False
  then show ?thesis by (simp add: broadcast_def)
qed

lemma bshape_same: "bshape n n = Some n"
  by (simp add: bshape_def)

lemma vadd_same: "length u = length v \<Longrightarrow> vadd u v = Inr (vec_add u v)"
  by (simp add: vadd_def bshape_same broadcast_id)

lemma bcast_array_id: "square n M \<Longrightarrow> bcast_array n n M = M"
proof -
  assume sq: "square n M"
  then have "map (broadcast n) (rows M) = rows M"
    by (intro map_idI broadcast_id) (simp add: square_def wf_array_def list_all_iff)
  moreover from sq have "length (rows M) = n" by (simp add: square_def nrows_def)
  ultimately show ?thesis using sq by (simp add: bcast_array_def broadcast_id square_def)
qed

lemma madd_square:
  assumes A: "square n A" and B: "square n B"
  shows "madd A B = Inr (mat_add A B)"
proof -
  from A B have "nrows A = n" "ncols A = n" "nrows B = n" "ncols B = n"
    by (simp_all add: square_def)
  then show ?thesis
    by (simp add: madd_def bshape_same bcast_array_id [OF A] bcast_array_id [OF B])
qed

lemma square_mat_add:
  assumes A: "square n A" and B: "square n B"
  shows "square n (mat_add A B)"
proof -
  from A B have l: "length (rows A) = n" "length (rows B) = n" "ncols A = n"
    and rA: "\<forall>r\<in>set (rows A). length r = n" and rB: "\<forall>r\<in>set (rows B). length r = n"
    by (simp_all add: square_def nrows_def wf_array_def list_all_iff)
  have "length (vec_add a b) = n" if "(a, b) \<in> set (zip (rows A) (rows B))" for a b
    using set_zip_leftD [OF that] set_zip_rightD [OF that] rA rB by (simp add: vec_add_def)
  then have "wf_array (mat_add A B)"
    using l by (auto simp: wf_array_def mat_add_def list_all_iff)
  with l show ?thesis by (simp add: square_def mat_add_def nrows_def)
qed

lemma square_scalar_mul: "square n M \<Longrightarrow> square n (scalar_mul c M)"
  by (simp add: square_def scalar_mul_def wf_array_def nrows_def list_all_iff)

lemma nrows_transpose_T: "nrows (transpose_T M) = ncols M"
  by (simp add: transpose_T_def nrows_def)

lemma ncols_transpose_T: "ncols (transpose_T M) = nrows M"
  by (simp add: transpose_T_def)

lemma nrows_Omega_inv: "nrows (Omega_inv Omega) = min (nrows Omega) (ncols Omega)"
  by (simp add: Omega_inv_def nrows_diag_mat length_diag_vec)

lemma ncols_Omega_inv: "ncols (Omega_inv Omega) = min (nrows Omega) (ncols Omega)"
  by (simp add: Omega_inv_def ncols_diag_mat length_diag_vec)

lemma is_inverse_square: "square n M \<Longrightarrow> is_inverse M B \<Longrightarrow> square n B"
  by (simp add: is_inverse_def square_def)

text \<open>
  The run of lines 123 to 130 on compatible shapes, once the inverse of \<open>tau * Sigma\<close>
  is known: every shape check passes and the result is that of the final solve.
\<close>

lemma posterior_run:
  assumes sq: "square n Sigma0" and nP: "ncols P = n"
    and nO: "min (nrows Omega) (ncols Omega) = nrows P"
    and lp: "length (vals Pi0) = n" and lq: "length (vals Q) = nrows P"
    and inv: "is_inverse (scalar_mul tau Sigma0) TSI"
  shows "posterior Pi0 Sigma0 Q Omega P tau =
           (case linalg_solve (posterior_A TSI P Omega) (posterior_b TSI P Omega (vals Pi0) (vals Q)) of
              Inl e \<Rightarrow> Inl e
            | Inr x \<Rightarrow> pd_Series x (index Pi0))"
    and "square n (posterior_A TSI P Omega)"
    and "length (posterior_b TSI P Omega (vals Pi0) (vals Q)) = n"
proof -
  let ?POi = "mat_mult (transpose_T P) (Omega_inv Omega)"
  let ?PtOP = "mat_mult ?POi P"
  have sqT: "square n (scalar_mul tau Sigma0)" using sq by (rule square_scalar_mul)
  have sqI: "square n TSI" using sqT inv by (rule is_inverse_square)
  have m1: "matmul (transpose_T P) (Omega_inv Omega) = Inr ?POi"
    using nO by (simp add: matmul_def ncols_transpose_T nrows_Omega_inv)
  have i1: "linalg_inv (scalar_mul tau Sigma0) = Inr TSI"
    using sqT inv by (rule linalg_inv_complete)
  have m2: "matmul ?POi P = Inr ?PtOP"
    using nO by (simp add: matmul_def ncols_mat_mult ncols_Omega_inv)
  have sqP: "square n ?PtOP"
    using nP by (simp add: square_def wf_mat_mult nrows_mat_mult ncols_mat_mult nrows_transpose_T)
  have a1: "madd TSI ?PtOP = Inr (posterior_A TSI P Omega)"
    using madd_square [OF sqI sqP] by (simp add: posterior_A_def)
  have d1: "dot_vec TSI (vals Pi0) = Inr (mat_vec TSI (vals Pi0))"
    using sqI lp by (simp add: dot_vec_def square_def)
  have d2: "dot_vec ?POi (vals Q) = Inr (mat_vec ?POi (vals Q))"
    using nO lq by (simp add: dot_vec_def ncols_mat_mult ncols_Omega_inv)
  have l1: "length (mat_vec TSI (vals Pi0)) = n" using sqI by (simp add: length_mat_vec square_def)
  have l2: "length (mat_vec ?POi (vals Q)) = n"
    using nP by (simp add: length_mat_vec nrows_mat_mult nrows_transpose_T)
  have v1: "vadd (mat_vec TSI (vals Pi0)) (mat_vec ?POi (vals Q))
            = Inr (posterior_b TSI P Omega (vals Pi0) (vals Q))"
    using l1 l2 by (simp add: vadd_same posterior_b_def)
  show "posterior Pi0 Sigma0 Q Omega P tau =
           (case linalg_solve (posterior_A TSI P Omega) (posterior_b TSI P Omega (vals Pi0) (vals Q)) of
              Inl e \<Rightarrow> Inl e
            | Inr x \<Rightarrow> pd_Series x (index Pi0))"
    by (simp add: posterior_def m1 i1 m2 a1 d1 d2 v1)
  show "square n (posterior_A TSI P Omega)"
    unfolding posterior_A_def using sqI sqP by (rule square_mat_add)
  show "length (posterior_b TSI P Omega (vals Pi0) (vals Q)) = n"
    using l1 l2 by (simp add: posterior_b_def vec_add_def)
qed

text \<open>
  Claim C1. On compatible shapes (\<open>Sigma\<close> is \<open>n\<close> by \<open>n\<close>, \<open>P\<close> has \<open>n\<close> columns and one row
  per view, \<open>Omega\<close> has one diagonal entry per view, none of them zero, \<open>Pi\<close> has \<open>n\<close>
  entries and \<open>Q\<close> one per view), if \<open>TSI\<close> is the inverse of \<open>tau * Sigma\<close> and the matrix
  \<open>A = TSI + P\<^sup>T Omega_inv P\<close> is invertible, the call returns a series with the index of
  \<open>Pi\<close>, as long as \<open>Pi\<close>, whose values \<open>x\<close> satisfy \<open>A x = TSI Pi + P\<^sup>T Omega_inv Q\<close>;
  and \<open>x\<close> is the only vector of that length that does.
\<close>

theorem bl_posterior_solves:
  assumes sq: "square n Sigma0" and wfP: "wf_array P" and nP: "ncols P = n"
    and wfO: "wf_array Omega" and nO: "nrows Omega = nrows P" "ncols Omega = nrows P"
    and nz: "\<forall>d\<in>set (diag_vec Omega). d \<noteq> 0"
    and lp: "length (vals Pi0) = n" and li: "length (index Pi0) = n"
    and lq: "length (vals Q) = nrows P"
    and inv: "is_inverse (scalar_mul tau Sigma0) TSI"
    and invA: "invertible (posterior_A TSI P Omega)"
  shows "\<exists>x. black_litterman_return Pi0 Sigma0 Q (Some Omega) (Some P) tau
               = Inr \<lparr>index = index Pi0, vals = x\<rparr>
             \<and> length x = length (vals Pi0)
             \<and> mat_vec (posterior_A TSI P Omega) x = posterior_b TSI P Omega (vals Pi0) (vals Q)
             \<and> (\<forall>z. length z = n \<and> mat_vec (posterior_A TSI P Omega) z
                        = posterior_b TSI P Omega (vals Pi0) (vals Q) \<longrightarrow> z = x)"
proof -
  from nO have m: "min (nrows Omega) (ncols Omega) = nrows P" by simp
  note run = posterior_run [OF sq nP m lp lq inv]
  from linalg_solve_invertible [OF run(2) invA run(3)] obtain x where
    s: "linalg_solve (posterior_A TSI P Omega) (posterior_b TSI P Omega (vals Pi0) (vals Q)) = Inr x"
    and lx: "length x = n"
    and ax: "mat_vec (posterior_A TSI P Omega) x = posterior_b TSI P Omega (vals Pi0) (vals Q)"
    and ux: "\<forall>z. length z = n \<and> mat_vec (posterior_A TSI P Omega) z
                   = posterior_b TSI P Omega (vals Pi0) (vals Q) \<longrightarrow> z = x"
    by blast
  have r: "black_litterman_return Pi0 Sigma0 Q (Some Omega) (Some P) tau
        = Inr \<lparr>index = index Pi0, vals = x\<rparr>"
    using lx li by (simp add: black_litterman_return_def run(1) s pd_Series_def)
  show ?thesis
  proof (intro exI [of _ x] conjI)
    show "length x = length (vals Pi0)" using lx lp by simp
  qed (fact r ax ux)+
qed

text \<open>
  Two assets and one view, "the first asset returns 0.3 more than the second", held with
  variance \<open>1/2\<close>: the inverse of \<open>tau * Sigma\<close>, the matrix \<open>A\<close>, its inverse, the
  right-hand side and the posterior, which solves the system.
\<close>

theorem bl_posterior_solves_witness:
  "square 2 \<lparr>ncols = 2, rows = [[2, 1], [1, 3]]\<rparr>
   \<and> is_inverse (scalar_mul (1/20) \<lparr>ncols = 2, rows = [[2, 1], [1, 3]]\<rparr>)
        \<lparr>ncols = 2, rows = [[12, -4], [-4, 8]]\<rparr>
   \<and> posterior_A \<lparr>ncols = 2, rows = [[12, -4], [-4, 8]]\<rparr> \<lparr>ncols = 2, rows = [[1, -1]]\<rparr>
        \<lparr>ncols = 1, rows = [[1/2]]\<rparr> = \<lparr>ncols = 2, rows = [[14, -6], [-6, 10]]\<rparr>
   \<and> is_inverse \<lparr>ncols = 2, rows = [[14, -6], [-6, 10]]\<rparr>
        \<lparr>ncols = 2, rows = [[5/52, 3/52], [3/52, 7/52]]\<rparr>
   \<and> posterior_b \<lparr>ncols = 2, rows = [[12, -4], [-4, 8]]\<rparr> \<lparr>ncols = 2, rows = [[1, -1]]\<rparr>
        \<lparr>ncols = 1, rows = [[1/2]]\<rparr> [1/10, 2/10] [3/10] = [1, 3/5]
   \<and> black_litterman_return \<lparr>index = [''a'', ''b''], vals = [1/10, 2/10]\<rparr>
        \<lparr>ncols = 2, rows = [[2, 1], [1, 3]]\<rparr> \<lparr>index = [0::nat], vals = [3/10]\<rparr>
        (Some \<lparr>ncols = 1, rows = [[1/2]]\<rparr>) (Some \<lparr>ncols = 2, rows = [[1, -1]]\<rparr>) (1/20)
       = Inr \<lparr>index = [''a'', ''b''], vals = [17/130, 9/65]\<rparr>
   \<and> mat_vec \<lparr>ncols = 2, rows = [[14, -6], [-6, 10]]\<rparr> [17/130, 9/65] = [1, 3/5]"
proof -
  let ?S = "\<lparr>ncols = 2, rows = [[2, 1], [1, 3]]\<rparr>"
  let ?P = "\<lparr>ncols = 2, rows = [[1, -1]]\<rparr>"
  let ?Om = "\<lparr>ncols = 1, rows = [[1/2]]\<rparr>"
  let ?TSI = "\<lparr>ncols = 2, rows = [[12, -4], [-4, 8]]\<rparr>"
  let ?A = "\<lparr>ncols = 2, rows = [[14, -6], [-6, 10]]\<rparr>"
  let ?Pi = "\<lparr>index = [''a'', ''b''], vals = [1/10, 2/10 :: real]\<rparr>"
  let ?Q = "\<lparr>index = [0::nat], vals = [3/10 :: real]\<rparr>"
  have sq: "square 2 ?S" by code_simp
  have wfP: "wf_array ?P" by code_simp
  have nP: "ncols ?P = 2" by simp
  have wfO: "wf_array ?Om" by code_simp
  have nO: "nrows ?Om = nrows ?P" "ncols ?Om = nrows ?P" by (simp_all add: nrows_def)
  have nz: "\<forall>d\<in>set (diag_vec ?Om). d \<noteq> 0" by code_simp
  have lp: "length (vals ?Pi) = 2" and li: "length (index ?Pi) = 2" by simp_all
  have lq: "length (vals ?Q) = nrows ?P" by (simp add: nrows_def)
  have inv: "is_inverse (scalar_mul (1/20) ?S) ?TSI" by code_simp
  have A: "posterior_A ?TSI ?P ?Om = ?A" by code_simp
  have iA: "is_inverse ?A \<lparr>ncols = 2, rows = [[5/52, 3/52], [3/52, 7/52]]\<rparr>" by code_simp
  then have invA: "invertible (posterior_A ?TSI ?P ?Om)"
    unfolding A invertible_def by (rule exI)
  have b: "posterior_b ?TSI ?P ?Om [1/10, 2/10] [3/10] = [1, 3/5]" by code_simp
  from bl_posterior_solves [OF sq wfP nP wfO nO nz lp li lq inv invA]
  obtain x where r: "black_litterman_return ?Pi ?S ?Q (Some ?Om) (Some ?P) (1/20)
                    = Inr \<lparr>index = index ?Pi, vals = x\<rparr>"
    and ax: "mat_vec (posterior_A ?TSI ?P ?Om) x = posterior_b ?TSI ?P ?Om (vals ?Pi) (vals ?Q)"
    by blast
  have v: "black_litterman_return ?Pi ?S ?Q (Some ?Om) (Some ?P) (1/20)
           = Inr \<lparr>index = [''a'', ''b''], vals = [17/130, 9/65]\<rparr>" by code_simp
  with r have "x = [17/130, 9/65]" by simp
  with ax A b have "mat_vec ?A [17/130, 9/65] = [1, 3/5]" by simp
  with sq inv A iA b v show ?thesis by simp
qed

section \<open>The call with its defaults resolved\<close>




section \<open>Restating the prior as the views\<close>












section \<open>The weight \<open>tau\<close> under the defaults\<close>










lemma ncols_scalar_mul: "ncols (scalar_mul c M) = ncols M"
  by (simp add: scalar_mul_def)
















section \<open>Defaults of the Black-Litterman posterior\<close>

text \<open>
  Claim C2. A call without \<open>P\<close> is the call with the identity matrix of as many rows as
  \<open>Sigma\<close> passed for \<open>P\<close>. A call without \<open>Omega\<close> (on shapes for which
  \<open>tau * P @ Sigma @ P.T\<close> is defined) is the call with \<open>Om\<close> passed for \<open>Omega\<close>, where
  \<open>Om\<close> is square with one row per view, carries the diagonal of \<open>tau * P @ Sigma @ P.T\<close>
  on its diagonal and zero everywhere else. On other shapes that product is not defined
  and the call raises \<open>ValueError\<close>.
\<close>

theorem bl_defaults:
  "black_litterman_return Pi0 Sigma0 Q Omega None tau =
     black_litterman_return Pi0 Sigma0 Q Omega (Some (eye (nrows Sigma0))) tau
   \<and> nrows (eye (nrows Sigma0)) = nrows Sigma0 \<and> ncols (eye (nrows Sigma0)) = nrows Sigma0
   \<and> (\<forall>i j. i < nrows Sigma0 \<and> j < nrows Sigma0 \<longrightarrow>
         rows (eye (nrows Sigma0)) ! i ! j = (if i = j then 1 else 0))
   \<and> (ncols P = nrows Sigma0 \<and> ncols Sigma0 = ncols P \<longrightarrow>
        (let M = mat_mult (mat_mult (scalar_mul tau P) Sigma0) (transpose_T P);
             Om = diag_mat (diag_vec M)
         in black_litterman_return Pi0 Sigma0 Q None (Some P) tau =
              black_litterman_return Pi0 Sigma0 Q (Some Om) (Some P) tau
            \<and> nrows Om = nrows P \<and> ncols Om = nrows P
            \<and> (\<forall>i j. i < nrows P \<and> j < nrows P \<longrightarrow>
                  rows Om ! i ! j = (if i = j then rows M ! i ! i else 0))))
   \<and> (\<not> (ncols P = nrows Sigma0 \<and> ncols Sigma0 = ncols P) \<longrightarrow>
        black_litterman_return Pi0 Sigma0 Q None (Some P) tau = Inl ValueError)"
proof (intro conjI impI)
  show "black_litterman_return Pi0 Sigma0 Q Omega None tau =
     black_litterman_return Pi0 Sigma0 Q Omega (Some (eye (nrows Sigma0))) tau"
    by (simp add: black_litterman_return_def)
  show "nrows (eye (nrows Sigma0)) = nrows Sigma0" "ncols (eye (nrows Sigma0)) = nrows Sigma0"
    by (simp_all add: nrows_eye ncols_eye)
  show "\<forall>i j. i < nrows Sigma0 \<and> j < nrows Sigma0 \<longrightarrow>
         rows (eye (nrows Sigma0)) ! i ! j = (if i = j then 1 else 0)"
    by (simp add: eye_entry)
  show "black_litterman_return Pi0 Sigma0 Q None (Some P) tau = Inl ValueError"
    if "\<not> (ncols P = nrows Sigma0 \<and> ncols Sigma0 = ncols P)"
    using that
    by (auto simp: black_litterman_return_def default_Omega_def matmul_def ncols_scalar_mul
        ncols_mat_mult nrows_transpose_T)
next
  assume sh: "ncols P = nrows Sigma0 \<and> ncols Sigma0 = ncols P"
  define M where "M = mat_mult (mat_mult (scalar_mul tau P) Sigma0) (transpose_T P)"
  have dims: "nrows M = nrows P" "ncols M = nrows P"
    by (simp_all add: M_def mat_mult_def nrows_def scalar_mul_def transpose_T_def)
  have len: "length (diag_vec M) = nrows P"
    by (simp add: length_diag_vec dims)
  have call: "black_litterman_return Pi0 Sigma0 Q None (Some P) tau =
              black_litterman_return Pi0 Sigma0 Q (Some (diag_mat (diag_vec M))) (Some P) tau"
    using sh by (simp add: black_litterman_return_def default_Omega_eq M_def)
  have ent: "\<forall>i j. i < nrows P \<and> j < nrows P \<longrightarrow>
      rows (diag_mat (diag_vec M)) ! i ! j = (if i = j then rows M ! i ! i else 0)"
    using len dims by (simp add: diag_mat_entry) (simp add: diag_vec_def)
  show "let M = mat_mult (mat_mult (scalar_mul tau P) Sigma0) (transpose_T P);
             Om = diag_mat (diag_vec M)
         in black_litterman_return Pi0 Sigma0 Q None (Some P) tau =
              black_litterman_return Pi0 Sigma0 Q (Some Om) (Some P) tau
            \<and> nrows Om = nrows P \<and> ncols Om = nrows P
            \<and> (\<forall>i j. i < nrows P \<and> j < nrows P \<longrightarrow>
                  rows Om ! i ! j = (if i = j then rows M ! i ! i else 0))"
    unfolding Let_def M_def [symmetric]
    using call ent len by (simp add: nrows_diag_mat ncols_diag_mat)
qed

text \<open>
  Two assets, one view (the first asset outperforms the second), no \<open>Omega\<close>: the call is
  the call with the one-by-one \<open>Omega\<close> holding \<open>tau * P @ Sigma @ P.T = 3/20\<close>.
\<close>

theorem bl_defaults_witness:
  "ncols \<lparr>ncols = 2, rows = [[1, -1]]\<rparr> = nrows \<lparr>ncols = 2, rows = [[2, 1], [1, 3]]\<rparr>
   \<and> black_litterman_return \<lparr>index = [''a'', ''b''], vals = [1/10, 2/10]\<rparr>
        \<lparr>ncols = 2, rows = [[2, 1], [1, 3]]\<rparr> \<lparr>index = [0::nat], vals = [3/10]\<rparr>
        None (Some \<lparr>ncols = 2, rows = [[1, -1]]\<rparr>) (1/20)
     = black_litterman_return \<lparr>index = [''a'', ''b''], vals = [1/10, 2/10]\<rparr>
        \<lparr>ncols = 2, rows = [[2, 1], [1, 3]]\<rparr> \<lparr>index = [0::nat], vals = [3/10]\<rparr>
        (Some \<lparr>ncols = 1, rows = [[3/20]]\<rparr>) (Some \<lparr>ncols = 2, rows = [[1, -1]]\<rparr>) (1/20)"
proof -
  have sh: "ncols \<lparr>ncols = 2, rows = [[1, -1]]\<rparr> = nrows \<lparr>ncols = 2, rows = [[2, 1], [1, 3]]\<rparr>
            \<and> ncols \<lparr>ncols = 2, rows = [[2, 1], [1, 3]]\<rparr> = ncols \<lparr>ncols = 2, rows = [[1, -1]]\<rparr>"
    by (simp add: nrows_def)
  have om: "diag_mat (diag_vec (mat_mult (mat_mult (scalar_mul (1/20) \<lparr>ncols = 2, rows = [[1, -1]]\<rparr>)
               \<lparr>ncols = 2, rows = [[2, 1], [1, 3]]\<rparr>) (transpose_T \<lparr>ncols = 2, rows = [[1, -1]]\<rparr>)))
            = \<lparr>ncols = 1, rows = [[3/20]]\<rparr>"
    by code_simp
  show ?thesis
    using sh om
      bl_defaults [of "\<lparr>index = [''a'', ''b''], vals = [1/10, 2/10]\<rparr>"
        "\<lparr>ncols = 2, rows = [[2, 1], [1, 3]]\<rparr>" "\<lparr>index = [0::nat], vals = [3/10]\<rparr>" None "1/20"
        "\<lparr>ncols = 2, rows = [[1, -1]]\<rparr>"]
    by (simp add: Let_def)
qed

section \<open>Only the diagonal of \<open>Omega\<close> is read\<close>

text \<open>
  Claim C4. The posterior depends on \<open>Omega\<close> through its diagonal only: two calls that
  differ in \<open>Omega\<close> alone, on matrices with the same diagonal, return the same result (the
  same value, or the same error).
\<close>

theorem bl_Omega_diag:
  "diag_vec Omega1 = diag_vec Omega2 \<Longrightarrow>
   black_litterman_return Pi0 Sigma0 Q (Some Omega1) P tau =
     black_litterman_return Pi0 Sigma0 Q (Some Omega2) P tau"
  by (simp add: black_litterman_return_def posterior_def Omega_inv_def)

text \<open>A full two-by-two \<open>Omega\<close> against the diagonal matrix of its diagonal.\<close>

theorem bl_Omega_diag_witness:
  "diag_vec \<lparr>ncols = 2, rows = [[1/2, 7], [3, 1/4]]\<rparr> = diag_vec \<lparr>ncols = 2, rows = [[1/2, 0], [0, 1/4]]\<rparr>
   \<and> black_litterman_return \<lparr>index = [''a'', ''b''], vals = [1/10, 2/10]\<rparr>
        \<lparr>ncols = 2, rows = [[2, 1], [1, 3]]\<rparr> \<lparr>index = [0::nat, 1], vals = [3/10, 1/10]\<rparr>
        (Some \<lparr>ncols = 2, rows = [[1/2, 7], [3, 1/4]]\<rparr>) None (1/20)
     = black_litterman_return \<lparr>index = [''a'', ''b''], vals = [1/10, 2/10]\<rparr>
        \<lparr>ncols = 2, rows = [[2, 1], [1, 3]]\<rparr> \<lparr>index = [0::nat, 1], vals = [3/10, 1/10]\<rparr>
        (Some \<lparr>ncols = 2, rows = [[1/2, 0], [0, 1/4]]\<rparr>) None (1/20)"
proof -
  have d: "diag_vec \<lparr>ncols = 2, rows = [[1/2, 7], [3, 1/4]]\<rparr>
           = diag_vec \<lparr>ncols = 2, rows = [[1/2, 0], [0, 1/4]]\<rparr>"
    by code_simp
  show ?thesis
    using d bl_Omega_diag [OF d] by simp
qed
section \<open>Returns from prices\<close>

lemma ratio_nonzero: "q \<noteq> 0 \<Longrightarrow> ratio p q = Some ((p - q) / q)"
  by (simp add: ratio_def field_simps)

lemma changes_zip:
  "changes prev rs = map2 (\<lambda>r q. (fst r, map2 ratio (snd r) q)) rs (prev # map snd rs)"
proof (induction rs arbitrary: prev)
  case Nil
  then show ?case by simp
next
  case (Cons r rs)
  then show ?case by (cases r) simp
qed

lemma map2_ratio_nonzero:
  "list_all (\<lambda>q. q \<noteq> 0) qs \<Longrightarrow>
   map2 ratio ps qs = map2 (\<lambda>p q. Some ((p - q) / q)) ps qs"
  by (auto simp: list_all_iff ratio_nonzero dest: set_zip_rightD)

text \<open>The rows of \<open>pct_change\<close> after the first, on nonzero prices.\<close>

lemma changes_nonzero:
  assumes "list_all (\<lambda>q. q \<noteq> 0) prev" "list_all (\<lambda>r. list_all (\<lambda>p. p \<noteq> 0) (snd r)) rs"
  shows "changes prev rs
         = map2 (\<lambda>r q. (fst r, map2 (\<lambda>p q. Some ((p - q) / q)) (snd r) q)) rs (prev # map snd rs)"
proof -
  have "list_all (\<lambda>q. q \<noteq> 0) q" if "(r, q) \<in> set (zip rs (prev # map snd rs))" for r q
    using set_zip_rightD [OF that] assms by (auto simp: list_all_iff)
  then show ?thesis
    unfolding changes_zip by (auto simp: map2_ratio_nonzero)
qed

lemma kept_row:
  assumes "length r = n" "length q = n" "0 < n"
  shows "list_ex (\<lambda>c. c \<noteq> None) (map2 (\<lambda>p q. Some ((p - q) / q)) r q)"
proof -
  from assms obtain p ps where "r = p # ps" by (cases r) auto
  moreover from assms obtain y ys where "q = y # ys" by (cases q) auto
  ultimately show ?thesis by simp
qed

lemma returns_rows:
  assumes wf: "wf_frame prices" and nz: "nonzero_prices prices" and cols: "columns prices \<noteq> []"
  shows "df_rows (returns_from_prices prices)
         = map2 (\<lambda>r q. (fst r, map2 (\<lambda>p q. Some ((p - q) / q)) (snd r) q))
             (tl (df_rows prices)) (map snd (df_rows prices))"
proof (cases "df_rows prices")
  case Nil
  then show ?thesis by (simp add: returns_from_prices_def dropna_all_def pct_change_def)
next
  case (Cons r0 rs)
  let ?n = "length (columns prices)"
  let ?f = "\<lambda>r q. (fst r, map2 (\<lambda>p q. Some ((p - q) / q)) (snd r) q)"
  from wf Cons have l0: "length (snd r0) = ?n" and ls: "\<forall>r\<in>set rs. length (snd r) = ?n"
    by (simp_all add: wf_frame_def list_all_iff)
  from nz Cons have n0: "list_all (\<lambda>q. q \<noteq> 0) (snd r0)"
    and ns: "list_all (\<lambda>r. list_all (\<lambda>p. p \<noteq> 0) (snd r)) rs"
    by (simp_all add: nonzero_prices_def)
  from cols have pos: "0 < ?n" by simp
  have first: "\<not> list_ex (\<lambda>c. c \<noteq> None) (map (\<lambda>_. None) (snd r0))"
    by (simp add: list_ex_iff)
  have keep: "list_ex (\<lambda>c. c \<noteq> None) (snd x)" if "x \<in> set (map2 ?f rs (snd r0 # map snd rs))" for x
  proof -
    from that obtain r q where rq: "(r, q) \<in> set (zip rs (snd r0 # map snd rs))" and x: "x = ?f r q"
      by auto
    from set_zip_leftD [OF rq] ls have lr: "length (snd r) = ?n" by simp
    from set_zip_rightD [OF rq] l0 ls have lq: "length q = ?n" by auto
    from kept_row [OF lr lq pos] show ?thesis unfolding x snd_conv .
  qed
  have ch: "changes (snd r0) rs = map2 ?f rs (snd r0 # map snd rs)"
    by (rule changes_nonzero [OF n0 ns])
  have pc: "df_rows (pct_change prices) = (fst r0, map (\<lambda>_. None) (snd r0)) # changes (snd r0) rs"
    by (cases r0) (simp add: pct_change_def Cons)
  have "df_rows (returns_from_prices prices)
        = filter (\<lambda>r. list_ex (\<lambda>c. c \<noteq> None) (snd r)) (map2 ?f rs (snd r0 # map snd rs))"
    unfolding returns_from_prices_def dropna_all_def
    by (simp only: pc ch dataframe.simps filter.simps snd_conv first if_False)
  also have "\<dots> = map2 ?f rs (snd r0 # map snd rs)"
    using keep by (simp add: filter_id_conv)
  finally show ?thesis by (simp add: Cons)
qed

lemma changes_no_columns:
  "\<forall>r\<in>set rs. snd r = [] \<Longrightarrow> \<forall>r\<in>set (changes prev rs). snd r = []"
  by (induction prev rs rule: changes.induct) auto

lemma returns_no_columns:
  assumes wf: "wf_frame prices" and cols: "columns prices = []"
  shows "df_rows (returns_from_prices prices) = []"
proof -
  from wf cols have e: "\<forall>r\<in>set (df_rows prices). snd r = []"
    by (simp add: wf_frame_def list_all_iff)
  have "snd r = []" if "r \<in> set (df_rows (pct_change prices))" for r
  proof (cases "df_rows prices")
    case Nil
    with that show ?thesis by (simp add: pct_change_def)
  next
    case (Cons r0 rs)
    with e have "snd r0 = []" and "\<forall>r\<in>set rs. snd r = []" by simp_all
    with that Cons changes_no_columns [of rs "snd r0"] show ?thesis
      by (cases r0) (auto simp: pct_change_def)
  qed
  then have "\<not> list_ex (\<lambda>c. c \<noteq> None) (snd r)" if "r \<in> set (df_rows (pct_change prices))" for r
    using that by simp
  then show ?thesis
    by (simp add: returns_from_prices_def dropna_all_def filter_empty_conv)
qed

lemma columns_returns: "columns (returns_from_prices prices) = columns prices"
  by (simp add: returns_from_prices_def dropna_all_def pct_change_def)

lemma returns_kept:
  "list_all (\<lambda>r. list_ex (\<lambda>c. c \<noteq> None) (snd r)) (df_rows (returns_from_prices prices))"
  by (simp add: returns_from_prices_def dropna_all_def list_all_iff)

lemma returns_length:
  assumes "wf_frame prices" "nonzero_prices prices" "columns prices \<noteq> []"
  shows "length (df_rows (returns_from_prices prices)) = length (df_rows prices) - 1"
  by (simp add: returns_rows [OF assms])

lemma returns_nth:
  assumes wf: "wf_frame prices" and nz: "nonzero_prices prices" and cols: "columns prices \<noteq> []"
    and t: "Suc t < length (df_rows prices)"
  shows "df_rows (returns_from_prices prices) ! t
         = (fst (df_rows prices ! Suc t),
            map2 (\<lambda>p q. Some ((p - q) / q)) (snd (df_rows prices ! Suc t)) (snd (df_rows prices ! t)))"
  using t by (simp add: returns_rows [OF wf nz cols] nth_tl)

lemma returns_cell:
  assumes wf: "wf_frame prices" and nz: "nonzero_prices prices"
    and t: "Suc t < length (df_rows prices)" and a: "a < length (columns prices)"
  shows "cell_at (returns_from_prices prices) t a
         = Some ((cell_at prices (Suc t) a - cell_at prices t a) / cell_at prices t a)"
proof -
  from a have cols: "columns prices \<noteq> []" by auto
  from wf t have "length (snd (df_rows prices ! Suc t)) = length (columns prices)"
    "length (snd (df_rows prices ! t)) = length (columns prices)"
    by (simp_all add: wf_frame_def list_all_length)
  with a show ?thesis
    by (simp add: cell_at_def returns_nth [OF wf nz cols t])
qed

text \<open>
  Claim C6. For a price table (every row as long as the column list, every price nonzero)
  the return table has the columns of the price table in their order; no row of it is
  all undefined; with no column it has no row; otherwise its row labels are those of the
  price table without the first, in their order; and its cell for asset \<open>a\<close> in row \<open>t\<close>
  is \<open>(p\<^sub>t\<^sub>+\<^sub>1 - p\<^sub>t) / p\<^sub>t\<close> for the prices \<open>p\<close> of the asset, which is zero where the price
  did not change.
\<close>

theorem returns_from_prices_cells:
  assumes wf: "wf_frame prices" and nz: "nonzero_prices prices"
  shows "columns (returns_from_prices prices) = columns prices
       \<and> list_all (\<lambda>r. list_ex (\<lambda>c. c \<noteq> None) (snd r)) (df_rows (returns_from_prices prices))
       \<and> (columns prices = [] \<longrightarrow> df_rows (returns_from_prices prices) = [])
       \<and> (columns prices \<noteq> [] \<longrightarrow>
            row_labels (returns_from_prices prices) = tl (row_labels prices))
       \<and> (\<forall>t a. Suc t < length (df_rows prices) \<and> a < length (columns prices) \<longrightarrow>
            cell_at (returns_from_prices prices) t a
              = Some ((cell_at prices (Suc t) a - cell_at prices t a) / cell_at prices t a)
            \<and> (cell_at prices (Suc t) a = cell_at prices t a \<longrightarrow>
                 cell_at (returns_from_prices prices) t a = Some 0))"
proof (intro conjI impI allI)
  show "columns (returns_from_prices prices) = columns prices" by (rule columns_returns)
  show "list_all (\<lambda>r. list_ex (\<lambda>c. c \<noteq> None) (snd r)) (df_rows (returns_from_prices prices))"
    by (rule returns_kept)
  show "df_rows (returns_from_prices prices) = []" if "columns prices = []"
    using wf that by (rule returns_no_columns)
  show "row_labels (returns_from_prices prices) = tl (row_labels prices)" if "columns prices \<noteq> []"
  proof -
    have "map fst (map2 (\<lambda>r q. (fst r, g r q)) rs qs) = map fst rs" if "length rs \<le> length qs"
      for g :: "label \<times> real list \<Rightarrow> real list \<Rightarrow> cell list" and rs qs
      using that
    proof (induction rs arbitrary: qs)
      case Nil
      then show ?case by simp
    next
      case (Cons r rs)
      then show ?case by (cases qs) simp_all
    qed
    then show ?thesis
      by (simp add: row_labels_def returns_rows [OF wf nz that] map_tl)
  qed
next
  fix t a
  assume h: "Suc t < length (df_rows prices) \<and> a < length (columns prices)"
  then show c: "cell_at (returns_from_prices prices) t a
              = Some ((cell_at prices (Suc t) a - cell_at prices t a) / cell_at prices t a)"
    using returns_cell [OF wf nz] by simp
  show "cell_at (returns_from_prices prices) t a = Some 0"
    if "cell_at prices (Suc t) a = cell_at prices t a"
    using c that by simp
qed

text \<open>Two assets over three days; the second asset keeps its price on the second day.\<close>

theorem returns_from_prices_cells_witness:
  "wf_frame \<lparr>columns = [Str ''A'', Str ''B''],
       df_rows = [(Str ''d0'', [100::real, 50]), (Str ''d1'', [110, 50]), (Str ''d2'', [132, 25])]\<rparr>
   \<and> nonzero_prices \<lparr>columns = [Str ''A'', Str ''B''],
       df_rows = [(Str ''d0'', [100::real, 50]), (Str ''d1'', [110, 50]), (Str ''d2'', [132, 25])]\<rparr>
   \<and> cell_at (returns_from_prices \<lparr>columns = [Str ''A'', Str ''B''],
       df_rows = [(Str ''d0'', [100::real, 50]), (Str ''d1'', [110, 50]), (Str ''d2'', [132, 25])]\<rparr>) 1 1 = Some ((25 - 50) / 50)
   \<and> cell_at (returns_from_prices \<lparr>columns = [Str ''A'', Str ''B''],
       df_rows = [(Str ''d0'', [100::real, 50]), (Str ''d1'', [110, 50]), (Str ''d2'', [132, 25])]\<rparr>) 0 1 = Some 0
   \<and> returns_from_prices \<lparr>columns = [Str ''A'', Str ''B''],
       df_rows = [(Str ''d0'', [100::real, 50]), (Str ''d1'', [110, 50]), (Str ''d2'', [132, 25])]\<rparr>
       = \<lparr>columns = [Str ''A'', Str ''B''],
          df_rows = [(Str ''d1'', [Some (1/10), Some 0]), (Str ''d2'', [Some (1/5), Some (-1/2)])]\<rparr>"
proof -
  let ?P = "\<lparr>columns = [Str ''A'', Str ''B''],
       df_rows = [(Str ''d0'', [100::real, 50]), (Str ''d1'', [110, 50]), (Str ''d2'', [132, 25])]\<rparr>"
  have wf: "wf_frame ?P" by code_simp
  have nz: "nonzero_prices ?P" by code_simp
  have c: "cell_at ?P 2 1 = 25" "cell_at ?P 1 1 = 50" "cell_at ?P 0 1 = 50" by code_simp+
  from returns_from_prices_cells [OF wf nz]
  have "Suc t < length (df_rows ?P) \<and> a < length (columns ?P) \<longrightarrow>
          cell_at (returns_from_prices ?P) t a
            = Some ((cell_at ?P (Suc t) a - cell_at ?P t a) / cell_at ?P t a)" for t a
    by blast
  from this [of 1 1] this [of 0 1] c
  have r: "cell_at (returns_from_prices ?P) 1 1 = Some ((25 - 50) / 50)"
    "cell_at (returns_from_prices ?P) 0 1 = Some 0"
    by (simp_all add: eval_nat_numeral)
  have v: "returns_from_prices ?P
       = \<lparr>columns = [Str ''A'', Str ''B''],
          df_rows = [(Str ''d1'', [Some (1/10), Some 0]), (Str ''d2'', [Some (1/5), Some (-1/2)])]\<rparr>"
    by code_simp
  from wf nz r v show ?thesis by (intro conjI)
qed

section \<open>Prices from returns, after returns from prices\<close>

lemma cumprod_ratios:
  assumes "\<forall>r\<in>set rs. length (snd r) = n" "length prev = n" "length base = n"
    and "list_all (\<lambda>p. p \<noteq> 0) prev" "\<forall>r\<in>set rs. list_all (\<lambda>p. p \<noteq> 0) (snd r)"
  shows "cumprod_rows (map2 (/) prev base)
           (map2 (\<lambda>r q. (fst r, map2 (\<lambda>p q. Some (1 + (p - q) / q)) (snd r) q)) rs (prev # map snd rs))
         = map (\<lambda>r. (fst r, map2 (\<lambda>p b. Some (p / b)) (snd r) base)) rs"
  using assms
proof (induction rs arbitrary: prev)
  case Nil
  then show ?case by simp
next
  case (Cons r rs)
  let ?cells = "map2 (\<lambda>p q. Some (1 + (p - q) / q)) (snd r) prev"
  let ?acc = "map2 (/) prev base"
  from Cons.prems have lr: "length (snd r) = n" and lp: "length prev = n" and lb: "length base = n"
    and np: "\<forall>i<n. prev ! i \<noteq> 0"
    by (simp_all add: list_all_length)
  have out: "map2 (\<lambda>a c. map_option (\<lambda>v. a * v) c) ?acc ?cells
             = map2 (\<lambda>p b. Some (p / b)) (snd r) base"
    using lr lp lb np by (intro nth_equalityI) (simp_all add: field_simps)
  have acc: "map2 (\<lambda>a c. case c of None \<Rightarrow> a | Some v \<Rightarrow> a * v) ?acc ?cells
             = map2 (/) (snd r) base"
    using lr lp lb np by (intro nth_equalityI) (simp_all add: field_simps)
  have "cumprod_rows (map2 (/) (snd r) base)
           (map2 (\<lambda>r q. (fst r, map2 (\<lambda>p q. Some (1 + (p - q) / q)) (snd r) q)) rs
              (snd r # map snd rs))
        = map (\<lambda>r. (fst r, map2 (\<lambda>p b. Some (p / b)) (snd r) base)) rs"
    using Cons.prems by (intro Cons.IH) simp_all
  then show ?case
    by (simp only: list.map zip_Cons_Cons split_conv fst_conv snd_conv cumprod_rows.simps out acc)
qed

lemma add_one_returns:
  assumes wf: "wf_frame prices" and nz: "nonzero_prices prices" and cols: "columns prices \<noteq> []"
  shows "df_rows (add_one (returns_from_prices prices))
         = map2 (\<lambda>r q. (fst r, map2 (\<lambda>p q. Some (1 + (p - q) / q)) (snd r) q))
             (tl (df_rows prices)) (map snd (df_rows prices))"
  by (simp add: add_one_def returns_rows [OF wf nz cols] zip_map_map split_beta)

lemma roundtrip_rows:
  assumes wf: "wf_frame prices" and nz: "nonzero_prices prices" and cols: "columns prices \<noteq> []"
    and two: "2 \<le> length (df_rows prices)"
  shows "prices_from_returns (returns_from_prices prices)
         = Inr \<lparr>columns = columns prices,
                df_rows = map (\<lambda>r. (fst r, map2 (\<lambda>p b. Some (p / b)) (snd r) (snd (df_rows prices ! 1))))
                            (tl (df_rows prices))\<rparr>"
proof -
  let ?n = "length (columns prices)"
  from two obtain r0 r1 rs where R: "df_rows prices = r0 # r1 # rs"
    by (cases "df_rows prices"; cases "tl (df_rows prices)") auto
  from wf R have l0: "length (snd r0) = ?n" and l1: "length (snd r1) = ?n"
    and ls: "\<forall>r\<in>set rs. length (snd r) = ?n"
    by (simp_all add: wf_frame_def list_all_iff)
  from nz R have n1: "list_all (\<lambda>p. p \<noteq> 0) (snd r1)"
    and ns: "\<forall>r\<in>set rs. list_all (\<lambda>p. p \<noteq> 0) (snd r)"
    by (simp_all add: nonzero_prices_def list_all_iff)
  let ?g = "\<lambda>r q. (fst r, map2 (\<lambda>p q. Some (1 + (p - q) / q)) (snd r) q)"
  have a1: "df_rows (add_one (returns_from_prices prices))
            = ?g r1 (snd r0) # map2 ?g rs (snd r1 # map snd rs)"
    by (simp add: add_one_returns [OF wf nz cols] R)
  have c1: "columns (add_one (returns_from_prices prices)) = columns prices"
    by (simp add: add_one_def columns_returns)
  have first: "map (\<lambda>_. Some 1) (snd (?g r1 (snd r0))) = replicate ?n (Some (1::real))"
    using l0 l1 by (simp add: map_replicate_const)
  have s1: "set_first_row (add_one (returns_from_prices prices))
            = Inr \<lparr>columns = columns prices,
                   df_rows = (fst r1, replicate ?n (Some 1)) # map2 ?g rs (snd r1 # map snd rs)\<rparr>"
    using first by (simp add: set_first_row_def a1 c1)
  have unit: "map2 (/) (snd r1) (snd r1) = replicate ?n 1"
    using l1 n1 by (intro nth_equalityI) (simp_all add: list_all_length)
  have ones: "map2 (\<lambda>p b. Some (p / b)) (snd r1) (snd r1) = replicate ?n (Some 1)"
    using l1 n1 by (intro nth_equalityI) (simp_all add: list_all_length)
  have out: "map2 (\<lambda>a c. map_option (\<lambda>v. a * v) c) (replicate ?n 1) (replicate ?n (Some (1::real)))
             = replicate ?n (Some 1)"
    by (intro nth_equalityI) simp_all
  have acc: "map2 (\<lambda>a c. case c of None \<Rightarrow> a | Some v \<Rightarrow> a * v) (replicate ?n 1)
               (replicate ?n (Some (1::real)))
             = replicate ?n 1"
    by (intro nth_equalityI) simp_all
  have rest: "cumprod_rows (replicate ?n 1) (map2 ?g rs (snd r1 # map snd rs))
              = map (\<lambda>r. (fst r, map2 (\<lambda>p b. Some (p / b)) (snd r) (snd r1))) rs"
    using cumprod_ratios [OF ls l1 l1 n1 ns] by (simp only: unit)
  have "cumprod \<lparr>columns = columns prices,
                   df_rows = (fst r1, replicate ?n (Some 1)) # map2 ?g rs (snd r1 # map snd rs)\<rparr>
        = \<lparr>columns = columns prices,
           df_rows = (fst r1, replicate ?n (Some 1))
                     # map (\<lambda>r. (fst r, map2 (\<lambda>p b. Some (p / b)) (snd r) (snd r1))) rs\<rparr>"
    by (simp only: cumprod_def dataframe.simps cumprod_rows.simps out acc rest)
  then show ?thesis
    by (simp add: prices_from_returns_def s1 R ones)
qed

text \<open>
  Claim C7, as stated, fails. One asset with prices 100, 110, 132: the round trip gives
  the rows 1 and 6/5 on the second and third day. The cell after the first is neither
  the price of its day over the asset's first price (132/100) nor the price of its
  position over the first price (110/100): it is 132/110.
\<close>

theorem prices_from_returns_roundtrip_counterexample:
  "prices_from_returns (returns_from_prices
      \<lparr>columns = [Str ''A''],
       df_rows = [(Str ''d0'', [100]), (Str ''d1'', [110]), (Str ''d2'', [132])]\<rparr>)
     = Inr \<lparr>columns = [Str ''A''],
            df_rows = [(Str ''d1'', [Some 1]), (Str ''d2'', [Some (6/5)])]\<rparr>
   \<and> (132 / 100 :: real) \<noteq> 6/5 \<and> (110 / 100 :: real) \<noteq> 6/5"
  by code_simp

text \<open>
  Claim C7, amended. For a price table with at least one column, at least two rows and
  nonzero prices, the round trip returns a table with the columns of the price table
  and its row labels without the first; its first row is 1 for every asset, and every
  cell is the price of the same day and asset divided by the asset's price in the
  second row of the price table (the day of the first return): the growth of the prices
  from the second row on, from base 1.
\<close>

theorem prices_from_returns_roundtrip:
  assumes wf: "wf_frame prices" and nz: "nonzero_prices prices" and cols: "columns prices \<noteq> []"
    and two: "2 \<le> length (df_rows prices)"
  shows "\<exists>out. prices_from_returns (returns_from_prices prices) = Inr out
           \<and> columns out = columns prices
           \<and> row_labels out = tl (row_labels prices)
           \<and> (\<forall>a. a < length (columns prices) \<longrightarrow> cell_at out 0 a = Some 1)
           \<and> (\<forall>t a. Suc t < length (df_rows prices) \<and> a < length (columns prices) \<longrightarrow>
                 cell_at out t a = Some (cell_at prices (Suc t) a / cell_at prices 1 a))"
proof -
  let ?n = "length (columns prices)"
  let ?out = "\<lparr>columns = columns prices,
                df_rows = map (\<lambda>r. (fst r, map2 (\<lambda>p b. Some (p / b)) (snd r) (snd (df_rows prices ! 1))))
                            (tl (df_rows prices))\<rparr>"
  have len: "length (snd (df_rows prices ! t)) = ?n" if "t < length (df_rows prices)" for t
    using wf that by (simp add: wf_frame_def list_all_length)
  have cell: "cell_at ?out t a = Some (cell_at prices (Suc t) a / cell_at prices 1 a)"
    if "Suc t < length (df_rows prices)" "a < ?n" for t a
    using that len [of "Suc t"] len [of 1] two
    by (simp add: cell_at_def nth_tl)
  have one: "cell_at ?out 0 a = Some 1" if "a < ?n" for a
  proof -
    from nz two len [of 1] that have "cell_at prices 1 a \<noteq> 0"
      by (simp add: nonzero_prices_def list_all_length cell_at_def)
    with cell [of 0 a] two that show ?thesis by simp
  qed
  show ?thesis
  proof (intro exI [of _ ?out] conjI allI impI)
    show "prices_from_returns (returns_from_prices prices) = Inr ?out"
      by (rule roundtrip_rows [OF wf nz cols two])
    show "columns ?out = columns prices" by simp
    show "row_labels ?out = tl (row_labels prices)"
      by (simp add: row_labels_def map_tl comp_def)
    show "cell_at ?out 0 a = Some 1" if "a < ?n" for a using that by (rule one)
    show "cell_at ?out t a = Some (cell_at prices (Suc t) a / cell_at prices 1 a)"
      if "Suc t < length (df_rows prices) \<and> a < ?n" for t a
      using that cell by simp
  qed
qed

text \<open>Two assets over three days.\<close>

theorem prices_from_returns_roundtrip_witness:
  "wf_frame \<lparr>columns = [Str ''A'', Str ''B''],
       df_rows = [(Str ''d0'', [100::real, 50]), (Str ''d1'', [110, 50]), (Str ''d2'', [132, 25])]\<rparr>
   \<and> nonzero_prices \<lparr>columns = [Str ''A'', Str ''B''],
       df_rows = [(Str ''d0'', [100::real, 50]), (Str ''d1'', [110, 50]), (Str ''d2'', [132, 25])]\<rparr>
   \<and> prices_from_returns (returns_from_prices \<lparr>columns = [Str ''A'', Str ''B''],
       df_rows = [(Str ''d0'', [100::real, 50]), (Str ''d1'', [110, 50]), (Str ''d2'', [132, 25])]\<rparr>)
       = Inr \<lparr>columns = [Str ''A'', Str ''B''],
              df_rows = [(Str ''d1'', [Some 1, Some 1]), (Str ''d2'', [Some (132/110), Some (25/50)])]\<rparr>"
proof -
  let ?P = "\<lparr>columns = [Str ''A'', Str ''B''],
       df_rows = [(Str ''d0'', [100::real, 50]), (Str ''d1'', [110, 50]), (Str ''d2'', [132, 25])]\<rparr>"
  have wf: "wf_frame ?P" by code_simp
  have nz: "nonzero_prices ?P" by code_simp
  have cols: "columns ?P \<noteq> []" by simp
  have two: "2 \<le> length (df_rows ?P)" by simp
  from prices_from_returns_roundtrip [OF wf nz cols two]
  obtain out where o: "prices_from_returns (returns_from_prices ?P) = Inr out"
    and c: "columns out = columns ?P" by (elim exE conjE) (rule that)
  have v: "prices_from_returns (returns_from_prices ?P)
       = Inr \<lparr>columns = [Str ''A'', Str ''B''],
              df_rows = [(Str ''d1'', [Some 1, Some 1]), (Str ''d2'', [Some (132/110), Some (25/50)])]\<rparr>"
    by code_simp
  from wf nz o c v show ?thesis by (intro conjI) simp_all
qed

section \<open>The mean historical return\<close>

lemma column_returns:
  assumes wf: "wf_frame prices" and nz: "nonzero_prices prices" and a: "a < length (columns prices)"
  shows "column (returns_from_prices prices) a = map Some (asset_returns prices a)"
proof (rule nth_equalityI)
  from a have cols: "columns prices \<noteq> []" by auto
  show l: "length (column (returns_from_prices prices) a) = length (map Some (asset_returns prices a))"
    by (simp add: column_def asset_returns_def returns_length [OF wf nz cols])
  fix t assume "t < length (column (returns_from_prices prices) a)"
  then have t: "Suc t < length (df_rows prices)"
    by (simp add: column_def returns_length [OF wf nz cols])
  then have "column (returns_from_prices prices) a ! t = cell_at (returns_from_prices prices) t a"
    by (simp add: column_def cell_at_def returns_length [OF wf nz cols])
  with t show "column (returns_from_prices prices) a ! t = map Some (asset_returns prices a) ! t"
    by (simp add: returns_cell [OF wf nz t a] asset_returns_def)
qed

lemma nanmean_Some:
  "nanmean (map Some xs) = (if xs = [] then None else Some (arithmetic_mean xs))"
proof -
  have "List.map_filter (\<lambda>c. c) (map Some xs) = xs"
    by (induction xs) (simp_all add: List.map_filter_simps)
  then show ?thesis by (simp add: nanmean_def arithmetic_mean_def)
qed

lemma mean_frame:
  "mean_historical_return (Frame prices) f = ([], scale_series (df_mean (returns_from_prices prices)) f)"
  by (simp add: mean_historical_return_def as_frame_def)

text \<open>
  Claim C8, as stated, fails. On the prices 100, 110 of one asset with \<open>frequency = 1\<close>
  the doubles give \<open>110 / 100 = 1.1\<close> rounded, which is a little above \<open>11/10\<close>, and
  subtracting one leaves \<open>450359962737050 / 2\<^sup>5\<^sup>2\<close>, printed \<open>0.10000000000000009\<close>: it is
  neither the real \<open>1/10\<close> nor the double nearest to it, which \<open>0.10\<close> denotes.
\<close>

theorem mean_historical_return_exact_counterexample:
  "mean_historical_return_f64
     (Frame \<lparr>columns = [Str ''A''], df_rows = [(Pos 0, [100]), (Pos 1, [110])]\<rparr>) 1
     = ([], \<lparr>index = [Str ''A''], vals = [Some (450359962737050 / 2 ^ 52)]\<rparr>)
   \<and> (450359962737050 / 2 ^ 52 :: real) \<noteq> fl (1/10)
   \<and> (450359962737050 / 2 ^ 52 :: real) \<noteq> 1/10"
  by code_simp

text \<open>
  Claim C8, amended. For a price table (rows as long as the column list, nonzero prices)
  given as a \<open>DataFrame\<close>, \<open>mean_historical_return\<close> warns of nothing and returns a series
  over the columns of the table, in their order, whose value for asset \<open>a\<close> is the mean of
  column \<open>a\<close> of the return table times \<open>frequency\<close>: the arithmetic mean of the asset's
  returns times \<open>frequency\<close>, and \<open>NaN\<close> when there are fewer than two rows (in exact
  arithmetic, which the doubles of the code follow up to rounding). On the prices 100, 110
  of one asset with \<open>frequency = 1\<close> the value in doubles is \<open>110 / 100\<close> rounded, minus
  one, for a table and (with the warning) for a bare sequence: that is \<open>0.10\<close> up to
  rounding, within \<open>2\<^sup>-\<^sup>5\<^sup>3\<close> of \<open>1/10\<close>.
\<close>

theorem mean_historical_return_value:
  assumes wf: "wf_frame prices" and nz: "nonzero_prices prices"
  shows "fst (mean_historical_return (Frame prices) f) = []
       \<and> index (snd (mean_historical_return (Frame prices) f)) = columns prices
       \<and> length (vals (snd (mean_historical_return (Frame prices) f))) = length (columns prices)
       \<and> (\<forall>a. a < length (columns prices) \<longrightarrow>
            vals (snd (mean_historical_return (Frame prices) f)) ! a
              = map_option (\<lambda>m. m * f) (nanmean (column (returns_from_prices prices) a))
            \<and> vals (snd (mean_historical_return (Frame prices) f)) ! a
              = (if length (df_rows prices) < 2 then None
                 else Some (arithmetic_mean (asset_returns prices a) * f)))
       \<and> mean_historical_return_f64
            (Frame \<lparr>columns = [Str ''A''], df_rows = [(Pos 0, [100]), (Pos 1, [110])]\<rparr>) 1
          = ([], \<lparr>index = [Str ''A''], vals = [Some (fl (110 / 100) - 1)]\<rparr>)
       \<and> mean_historical_return_f64 (Sequence [100, 110]) 1
          = ([RuntimeWarning ''prices are not in a dataframe''],
             \<lparr>index = [Pos 0], vals = [Some (fl (110 / 100) - 1)]\<rparr>)
       \<and> \<bar>fl (110 / 100) - 1 - 1/10\<bar> \<le> 1 / 2 ^ 53"
proof (intro conjI allI impI)
  show "fst (mean_historical_return (Frame prices) f) = []" by (simp add: mean_frame)
  show "index (snd (mean_historical_return (Frame prices) f)) = columns prices"
    by (simp add: mean_frame scale_series_def df_mean_def columns_returns)
  show "length (vals (snd (mean_historical_return (Frame prices) f))) = length (columns prices)"
    by (simp add: mean_frame scale_series_def df_mean_def columns_returns)
  show "mean_historical_return_f64
            (Frame \<lparr>columns = [Str ''A''], df_rows = [(Pos 0, [100]), (Pos 1, [110])]\<rparr>) 1
          = ([], \<lparr>index = [Str ''A''], vals = [Some (fl (110 / 100) - 1)]\<rparr>)"
    by code_simp
  show "mean_historical_return_f64 (Sequence [100, 110]) 1
          = ([RuntimeWarning ''prices are not in a dataframe''],
             \<lparr>index = [Pos 0], vals = [Some (fl (110 / 100) - 1)]\<rparr>)"
    by code_simp
  show "\<bar>fl (110 / 100) - 1 - 1/10\<bar> \<le> 1 / 2 ^ 53"
    by code_simp
next
  fix a assume a: "a < length (columns prices)"
  then show v: "vals (snd (mean_historical_return (Frame prices) f)) ! a
              = map_option (\<lambda>m. m * f) (nanmean (column (returns_from_prices prices) a))"
    by (simp add: mean_frame scale_series_def df_mean_def columns_returns)
  have "asset_returns prices a = [] \<longleftrightarrow> length (df_rows prices) < 2"
    by (auto simp: asset_returns_def)
  then show "vals (snd (mean_historical_return (Frame prices) f)) ! a
              = (if length (df_rows prices) < 2 then None
                 else Some (arithmetic_mean (asset_returns prices a) * f))"
    by (simp add: v column_returns [OF wf nz a] nanmean_Some)
qed

text \<open>Two assets over three days, annualised over 252 days.\<close>

theorem mean_historical_return_value_witness:
  "wf_frame \<lparr>columns = [Str ''A'', Str ''B''],
       df_rows = [(Str ''d0'', [100::real, 50]), (Str ''d1'', [110, 50]), (Str ''d2'', [132, 25])]\<rparr>
   \<and> nonzero_prices \<lparr>columns = [Str ''A'', Str ''B''],
       df_rows = [(Str ''d0'', [100::real, 50]), (Str ''d1'', [110, 50]), (Str ''d2'', [132, 25])]\<rparr>
   \<and> arithmetic_mean (asset_returns \<lparr>columns = [Str ''A'', Str ''B''],
       df_rows = [(Str ''d0'', [100::real, 50]), (Str ''d1'', [110, 50]), (Str ''d2'', [132, 25])]\<rparr> 0) * 252 = 189/5
   \<and> mean_historical_return (Frame \<lparr>columns = [Str ''A'', Str ''B''],
       df_rows = [(Str ''d0'', [100::real, 50]), (Str ''d1'', [110, 50]), (Str ''d2'', [132, 25])]\<rparr>) 252
       = ([], \<lparr>index = [Str ''A'', Str ''B''], vals = [Some (189/5), Some (-63)]\<rparr>)"
proof -
  let ?P = "\<lparr>columns = [Str ''A'', Str ''B''],
       df_rows = [(Str ''d0'', [100::real, 50]), (Str ''d1'', [110, 50]), (Str ''d2'', [132, 25])]\<rparr>"
  have wf: "wf_frame ?P" by code_simp
  have nz: "nonzero_prices ?P" by code_simp
  have e: "vals (snd (mean_historical_return (Frame ?P) 252)) ! 0
                = Some (arithmetic_mean (asset_returns ?P 0) * 252)"
    using mean_historical_return_value [OF wf nz, of 252, THEN conjunct2, THEN conjunct2,
        THEN conjunct2, THEN conjunct1, rule_format, of 0, THEN conjunct2]
    by simp
  have v: "mean_historical_return (Frame ?P) 252
       = ([], \<lparr>index = [Str ''A'', Str ''B''], vals = [Some (189/5), Some (-63)]\<rparr>)"
    by code_simp
  from e v have "arithmetic_mean (asset_returns ?P 0) * 252 = 189/5" by simp
  with wf nz v show ?thesis by (intro conjI)
qed

section \<open>The exponentially weighted historical return\<close>

lemma length_ewma_loop: "length (ewma_loop fac st cs) = length cs"
  by (induction cs arbitrary: st) (simp_all add: Let_def)

lemma length_ewma: "length (ewma com cs) = length cs"
  by (cases cs) (simp_all add: ewma_def length_ewma_loop)

lemma last_ewma_loop:
  "cs \<noteq> [] \<Longrightarrow> last (ewma_loop fac st cs) = fst (foldl (ewma_step fac) st cs)"
proof (induction cs arbitrary: st)
  case Nil
  then show ?case by simp
next
  case (Cons c cs)
  then show ?case
    by (cases cs) (simp_all add: Let_def)
qed

lemma last_ewma:
  "last (ewma com (c # cs)) = fst (foldl (ewma_step (1 - 1 / (1 + com))) (c, 1) cs)"
proof (cases cs)
  case Nil
  then show ?thesis by (simp add: ewma_def)
next
  case (Cons a list)
  then have "ewma_loop (1 - 1 / (1 + com)) (c, 1) cs \<noteq> []"
    using length_ewma_loop [of "1 - 1 / (1 + com)" "(c, 1)" cs] by auto
  then have "last (ewma com (c # cs)) = last (ewma_loop (1 - 1 / (1 + com)) (c, 1) cs)"
    by (simp add: ewma_def)
  moreover from Cons have "cs \<noteq> []" by simp
  ultimately show ?thesis using last_ewma_loop [of cs "1 - 1 / (1 + com)" "(c, 1)"] by simp
qed

text \<open>The weighted sums of the closed form, with one value more.\<close>

lemma weights_snoc:
  "(\<Sum>i<Suc m. fac ^ (m - i) * g i) = fac * (\<Sum>i<m. fac ^ (m - 1 - i) * g i) + (g m :: real)"
proof -
  have "(\<Sum>i<m. fac ^ (m - i) * g i) = (\<Sum>i<m. fac * (fac ^ (m - 1 - i) * g i))"
  proof (rule sum.cong)
    fix i assume "i \<in> {..<m}"
    then have "m - i = Suc (m - 1 - i)" by auto
    then show "fac ^ (m - i) * g i = fac * (fac ^ (m - 1 - i) * g i)" by simp
  qed simp
  then show ?thesis by (simp add: sum_distrib_left)
qed

lemma ewma_invariant:
  assumes fac: "0 \<le> fac"
  shows "\<exists>w ow. foldl (ewma_step fac) (Some x, 1) (map Some xs) = (Some w, ow)
           \<and> ow = (\<Sum>i<Suc (length xs). fac ^ (length xs - i))
           \<and> 0 < ow
           \<and> w * ow = (\<Sum>i<Suc (length xs). fac ^ (length xs - i) * (x # xs) ! i)"
proof (induction xs rule: rev_induct)
  case Nil
  then show ?case by simp
next
  case (snoc y ys)
  then obtain w ow where st: "foldl (ewma_step fac) (Some x, 1) (map Some ys) = (Some w, ow)"
    and ow: "ow = (\<Sum>i<Suc (length ys). fac ^ (length ys - i))" and pos: "0 < ow"
    and w: "w * ow = (\<Sum>i<Suc (length ys). fac ^ (length ys - i) * (x # ys) ! i)"
    by blast
  let ?m = "Suc (length ys)"
  let ?ow = "ow * fac + 1"
  let ?w = "(ow * fac * w + y) / ?ow"
  from fac pos have pos': "0 < ?ow" by (simp add: add_nonneg_pos)
  have step: "foldl (ewma_step fac) (Some x, 1) (map Some (ys @ [y])) = (Some ?w, ?ow)"
  proof (cases "w = y")
    case True
    with pos' have "?w = w" by (simp add: field_simps)
    with True show ?thesis by (simp add: st Let_def)
  next
    case False
    then show ?thesis by (simp add: st Let_def)
  qed
  have d: "(\<Sum>i<Suc ?m. fac ^ (?m - i)) = fac * ow + 1"
    using weights_snoc [where m = ?m and fac = fac and g = "\<lambda>_. 1"] by (simp add: ow)
  have "(\<Sum>i<Suc ?m. fac ^ (?m - i) * (x # ys @ [y]) ! i)
        = fac * (\<Sum>i<?m. fac ^ (?m - 1 - i) * (x # ys @ [y]) ! i) + (x # ys @ [y]) ! ?m"
    by (rule weights_snoc)
  also have "(\<Sum>i<?m. fac ^ (?m - 1 - i) * (x # ys @ [y]) ! i)
             = (\<Sum>i<?m. fac ^ (length ys - i) * (x # ys) ! i)"
    by (rule sum.cong) (auto simp: nth_append nth_Cons split: nat.splits)
  also have "(x # ys @ [y]) ! ?m = y"
    by (simp add: nth_append)
  finally have n: "(\<Sum>i<Suc ?m. fac ^ (?m - i) * (x # ys @ [y]) ! i) = fac * (w * ow) + y"
    by (simp add: w)
  have "?w * ?ow = fac * (w * ow) + y"
    using pos' by (simp add: field_simps)
  with step d n pos' show ?case
    by (intro exI [of _ ?w] exI [of _ ?ow]) (simp add: mult.commute)
qed

lemma last_ewma_closed:
  assumes span: "1 \<le> span0" and ne: "xs \<noteq> []"
  shows "last (ewma ((span0 - 1) / 2) (map Some xs)) = Some (ewm_average (2 / (span0 + 1)) xs)"
proof -
  from ne obtain x xt where xs: "xs = x # xt" by (cases xs) auto
  let ?fac = "1 - 1 / (1 + (span0 - 1) / 2)"
  from span have f: "?fac = 1 - 2 / (span0 + 1)" by (simp add: field_simps)
  from span have "0 \<le> 1 - 2 / (span0 + 1)" by (simp add: field_simps)
  with f have fac: "0 \<le> ?fac" by simp
  from ewma_invariant [OF fac, of x xt] obtain w ow where
    st: "foldl (ewma_step ?fac) (Some x, 1) (map Some xt) = (Some w, ow)"
    and ow: "ow = (\<Sum>i<Suc (length xt). ?fac ^ (length xt - i))" and pos: "0 < ow"
    and w: "w * ow = (\<Sum>i<Suc (length xt). ?fac ^ (length xt - i) * (x # xt) ! i)"
    by blast
  from pos w have "w = (\<Sum>i<Suc (length xt). ?fac ^ (length xt - i) * (x # xt) ! i) / ow"
    by (simp add: field_simps)
  then have "w = ewm_average (2 / (span0 + 1)) xs"
    unfolding ow f by (simp add: ewm_average_def xs)
  then show ?thesis
    unfolding xs list.map last_ewma st by simp
qed

lemma ema_frame:
  "ema_historical_return (Frame prices) f span0 =
     ([], case ewm_mean span0 (returns_from_prices prices) of
            Inl e \<Rightarrow> Inl e
          | Inr smoothed \<Rightarrow>
              (case iloc_last smoothed of Inl e \<Rightarrow> Inl e | Inr s \<Rightarrow> Inr (scale_series s f)))"
  by (simp add: ema_historical_return_def as_frame_def)

lemma length_column: "length (column df j) = length (df_rows df)"
  by (simp add: column_def)

text \<open>The last row of the smoothed table holds the last value of every smoothed column.\<close>

lemma iloc_last_ewm_mean:
  assumes span: "1 \<le> span0" and rows: "df_rows df \<noteq> []"
  shows "\<exists>sm. ewm_mean span0 df = Inr sm
           \<and> iloc_last sm
               = Inr \<lparr>index = columns df,
                      vals = map (\<lambda>j. last (ewma ((span0 - 1) / 2) (column df j)))
                               [0..<length (columns df)]\<rparr>"
proof -
  let ?m = "length (df_rows df)"
  let ?row = "\<lambda>i. (fst (df_rows df ! i),
                    map (\<lambda>j. ewma ((span0 - 1) / 2) (column df j) ! i) [0..<length (columns df)])"
  let ?sm = "\<lparr>columns = columns df, df_rows = map ?row [0..<?m]\<rparr>"
  from rows have m: "0 < ?m" by simp
  have e: "ewm_mean span0 df = Inr ?sm" using span by (simp add: ewm_mean_def)
  from m have ne: "map ?row [0..<?m] \<noteq> []" by simp
  from m have "last (map ?row [0..<?m]) = ?row (?m - 1)"
    by (simp add: last_conv_nth)
  moreover have "ewma ((span0 - 1) / 2) (column df j) ! (?m - 1)
                 = last (ewma ((span0 - 1) / 2) (column df j))" for j
  proof -
    have l: "length (ewma ((span0 - 1) / 2) (column df j)) = ?m"
      by (simp add: length_ewma length_column)
    with m have "ewma ((span0 - 1) / 2) (column df j) \<noteq> []" by auto
    then show ?thesis by (simp add: last_conv_nth l)
  qed
  ultimately have l: "snd (last (map ?row [0..<?m]))
                      = map (\<lambda>j. last (ewma ((span0 - 1) / 2) (column df j))) [0..<length (columns df)]"
    by simp
  from ne obtain r rs where c: "map ?row [0..<?m] = r # rs" by (cases "map ?row [0..<?m]") auto
  have "iloc_last ?sm = Inr \<lparr>index = columns df, vals = snd (last (map ?row [0..<?m]))\<rparr>"
    by (simp add: iloc_last_def c)
  with e l show ?thesis by (intro exI [of _ ?sm]) simp
qed

text \<open>
  Claim C9, as stated, fails. A price table of one row has an empty return table, and
  \<open>.iloc[-1]\<close> of the empty smoothed table raises \<open>IndexError\<close>; and a span of \<open>1/2\<close>,
  though positive, is refused by \<open>ewm\<close> with \<open>ValueError\<close>.
\<close>

theorem ema_historical_return_counterexample:
  "ema_historical_return (Frame \<lparr>columns = [Str ''A''], df_rows = [(Str ''d0'', [100])]\<rparr>) 252 500
     = ([], Inl IndexError)
   \<and> ema_historical_return
        (Frame \<lparr>columns = [Str ''A''], df_rows = [(Str ''d0'', [100]), (Str ''d1'', [110])]\<rparr>)
        252 (1/2)
     = ([], Inl ValueError)"
  by code_simp

text \<open>
  Claim C9, amended. For a price table with at least one column, at least two rows and
  nonzero prices, and a span of at least 1, \<open>ema_historical_return\<close> warns of nothing and
  returns a series over the columns of the table whose value for asset \<open>a\<close> is the last
  value of the smoothed return column of the asset times \<open>frequency\<close>, which is the
  average of the asset's returns with weight \<open>(1 - alpha)\<^sup>k\<close> on the return \<open>k\<close> periods
  before the last, \<open>alpha = 2 / (span + 1)\<close>, times \<open>frequency\<close>.
\<close>

theorem ema_historical_return_final:
  assumes wf: "wf_frame prices" and nz: "nonzero_prices prices" and cols: "columns prices \<noteq> []"
    and two: "2 \<le> length (df_rows prices)" and span: "1 \<le> span0"
  shows "\<exists>s. ema_historical_return (Frame prices) f span0 = ([], Inr s)
           \<and> index s = columns prices
           \<and> length (vals s) = length (columns prices)
           \<and> (\<forall>a. a < length (columns prices) \<longrightarrow>
                 vals s ! a = map_option (\<lambda>v. v * f)
                                (last (ewma ((span0 - 1) / 2) (column (returns_from_prices prices) a)))
                 \<and> vals s ! a = Some (ewm_average (2 / (span0 + 1)) (asset_returns prices a) * f))"
proof -
  let ?R = "returns_from_prices prices"
  let ?n = "length (columns prices)"
  let ?s = "\<lparr>index = columns prices,
             vals = map (\<lambda>j. last (ewma ((span0 - 1) / 2) (column ?R j))) [0..<?n]\<rparr>"
  have "length (df_rows ?R) = length (df_rows prices) - 1"
    by (rule returns_length [OF wf nz cols])
  with two have "df_rows ?R \<noteq> []" by auto
  from iloc_last_ewm_mean [OF span this] obtain sm where
    e: "ewm_mean span0 ?R = Inr sm" and i: "iloc_last sm = Inr ?s"
    by (auto simp: columns_returns)
  have r: "ema_historical_return (Frame prices) f span0 = ([], Inr (scale_series ?s f))"
    by (simp add: ema_frame e i)
  have v: "vals (scale_series ?s f) ! a
           = map_option (\<lambda>v. v * f) (last (ewma ((span0 - 1) / 2) (column ?R a)))"
    if "a < ?n" for a
    using that by (simp add: scale_series_def)
  have c: "vals (scale_series ?s f) ! a = Some (ewm_average (2 / (span0 + 1)) (asset_returns prices a) * f)"
    if a: "a < ?n" for a
  proof -
    from two have "asset_returns prices a \<noteq> []" by (auto simp: asset_returns_def)
    from last_ewma_closed [OF span this] show ?thesis
      by (simp add: v [OF a] column_returns [OF wf nz a])
  qed
  show ?thesis
  proof (intro exI [of _ "scale_series ?s f"] conjI allI impI)
    show "ema_historical_return (Frame prices) f span0 = ([], Inr (scale_series ?s f))" by (rule r)
    show "index (scale_series ?s f) = columns prices" by (simp add: scale_series_def)
    show "length (vals (scale_series ?s f)) = ?n" by (simp add: scale_series_def)
    show "vals (scale_series ?s f) ! a
           = map_option (\<lambda>v. v * f) (last (ewma ((span0 - 1) / 2) (column ?R a)))"
      if "a < ?n" for a using that by (rule v)
    show "vals (scale_series ?s f) ! a = Some (ewm_average (2 / (span0 + 1)) (asset_returns prices a) * f)"
      if "a < ?n" for a using that by (rule c)
  qed
qed

text \<open>Two assets over three days, span 3 (so \<open>alpha = 1/2\<close>), 252 periods a year.\<close>

theorem ema_historical_return_final_witness:
  "wf_frame \<lparr>columns = [Str ''A'', Str ''B''],
       df_rows = [(Str ''d0'', [100::real, 50]), (Str ''d1'', [110, 50]), (Str ''d2'', [132, 25])]\<rparr>
   \<and> nonzero_prices \<lparr>columns = [Str ''A'', Str ''B''],
       df_rows = [(Str ''d0'', [100::real, 50]), (Str ''d1'', [110, 50]), (Str ''d2'', [132, 25])]\<rparr>
   \<and> ewm_average (2 / (3 + 1)) (asset_returns \<lparr>columns = [Str ''A'', Str ''B''],
       df_rows = [(Str ''d0'', [100::real, 50]), (Str ''d1'', [110, 50]), (Str ''d2'', [132, 25])]\<rparr> 0) * 252 = 42
   \<and> ema_historical_return (Frame \<lparr>columns = [Str ''A'', Str ''B''],
       df_rows = [(Str ''d0'', [100::real, 50]), (Str ''d1'', [110, 50]), (Str ''d2'', [132, 25])]\<rparr>) 252 3
       = ([], Inr \<lparr>index = [Str ''A'', Str ''B''], vals = [Some 42, Some (-84)]\<rparr>)"
proof -
  let ?P = "\<lparr>columns = [Str ''A'', Str ''B''],
       df_rows = [(Str ''d0'', [100::real, 50]), (Str ''d1'', [110, 50]), (Str ''d2'', [132, 25])]\<rparr>"
  have wf: "wf_frame ?P" by code_simp
  have nz: "nonzero_prices ?P" by code_simp
  have cols: "columns ?P \<noteq> []" by simp
  have two: "2 \<le> length (df_rows ?P)" by simp
  have span: "(1::real) \<le> 3" by simp
  from ema_historical_return_final [OF wf nz cols two span, of 252]
  obtain s where r: "ema_historical_return (Frame ?P) 252 3 = ([], Inr s)"
    and a: "\<forall>a. a < length (columns ?P) \<longrightarrow>
                 vals s ! a = map_option (\<lambda>v. v * 252)
                                (last (ewma ((3 - 1) / 2) (column (returns_from_prices ?P) a)))
                 \<and> vals s ! a = Some (ewm_average (2 / (3 + 1)) (asset_returns ?P a) * 252)"
    by (elim exE conjE) (rule that)
  have v: "ema_historical_return (Frame ?P) 252 3
       = ([], Inr \<lparr>index = [Str ''A'', Str ''B''], vals = [Some 42, Some (-84)]\<rparr>)"
    by code_simp
  from r v have "s = \<lparr>index = [Str ''A'', Str ''B''], vals = [Some 42, Some (-84)]\<rparr>" by simp
  then have "vals s ! 0 = Some 42" by simp
  moreover have pos: "0 < length (columns ?P)" by simp
  note a [rule_format, OF pos, THEN conjunct2]
  ultimately have "ewm_average (2 / (3 + 1)) (asset_returns ?P 0) * 252 = 42" by simp
  with wf nz v show ?thesis by (intro conjI)
qed


end
